theory Spec2Isabelle
  imports Complex_Main
begin

text \<open>
  The layout core of the graph visualisation: the class \<open>ForceDirectedLayout\<close> with its
  constructor, \<open>optimizeLayout\<close> and the three metrics \<open>calculateEdgeCrossings\<close>,
  \<open>calculateAverageDistance\<close> and \<open>calculateMinimumNodeDistance\<close>. The definitions follow
  the TypeScript source function by function; the properties proved of them follow.
\<close>

section \<open>JavaScript numbers\<close>

text \<open>
  The program computes with JavaScript \<open>number\<close>s. The operations of this section are
  the exact ones: a finite value is a real number (no rounding, no overflow), and the three
  special values of the format are kept, because division by zero and \<open>NaN\<close> decide several
  properties of the layout code. The two zeros of the format are identified (a zero divisor
  acts as \<open>+0\<close>). The rounding of the format is added in the next section, for the
  crossing test, whose answer depends on it.
\<close>

datatype number = Finite real | PosInf | NegInf | NaN

fun js_add :: "number \<Rightarrow> number \<Rightarrow> number" where
  "js_add (Finite a) (Finite b) = Finite (a + b)"
| "js_add NaN _ = NaN"
| "js_add _ NaN = NaN"
| "js_add PosInf NegInf = NaN"
| "js_add NegInf PosInf = NaN"
| "js_add PosInf _ = PosInf"
| "js_add _ PosInf = PosInf"
| "js_add NegInf _ = NegInf"
| "js_add _ NegInf = NegInf"

fun js_sub :: "number \<Rightarrow> number \<Rightarrow> number" where
  "js_sub (Finite a) (Finite b) = Finite (a - b)"
| "js_sub NaN _ = NaN"
| "js_sub _ NaN = NaN"
| "js_sub PosInf PosInf = NaN"
| "js_sub NegInf NegInf = NaN"
| "js_sub PosInf _ = PosInf"
| "js_sub _ NegInf = PosInf"
| "js_sub NegInf _ = NegInf"
| "js_sub _ PosInf = NegInf"

text \<open>The sign of a number: \<open>None\<close> for \<open>NaN\<close>, otherwise \<open>-1\<close>, \<open>0\<close> or \<open>1\<close>.\<close>

fun js_sign :: "number \<Rightarrow> int option" where
  "js_sign (Finite a) = Some (if a < 0 then - 1 else if a = 0 then 0 else 1)"
| "js_sign PosInf = Some 1"
| "js_sign NegInf = Some (- 1)"
| "js_sign NaN = None"

fun js_mul :: "number \<Rightarrow> number \<Rightarrow> number" where
  "js_mul (Finite a) (Finite b) = Finite (a * b)"
| "js_mul a b =
     (case (js_sign a, js_sign b) of
        (Some s, Some t) \<Rightarrow>
          (if s * t = 0 then NaN else if 0 < s * t then PosInf else NegInf)
      | _ \<Rightarrow> NaN)"

fun js_div :: "number \<Rightarrow> number \<Rightarrow> number" where
  "js_div (Finite a) (Finite b) =
     (if b \<noteq> 0 then Finite (a / b)
      else if a = 0 then NaN else if 0 < a then PosInf else NegInf)"
| "js_div NaN _ = NaN"
| "js_div _ NaN = NaN"
| "js_div (Finite a) _ = Finite 0"
| "js_div PosInf (Finite b) = (if 0 \<le> b then PosInf else NegInf)"
| "js_div NegInf (Finite b) = (if 0 \<le> b then NegInf else PosInf)"
| "js_div _ _ = NaN"

text \<open>The comparison \<open>a < b\<close>: false as soon as one side is \<open>NaN\<close>.\<close>

fun js_lt :: "number \<Rightarrow> number \<Rightarrow> bool" where
  "js_lt (Finite a) (Finite b) = (a < b)"
| "js_lt NaN _ = False"
| "js_lt _ NaN = False"
| "js_lt _ NegInf = False"
| "js_lt PosInf _ = False"
| "js_lt NegInf _ = True"
| "js_lt _ PosInf = True"

text \<open>\<open>a <= b\<close>, again false on \<open>NaN\<close>.\<close>

definition js_le :: "number \<Rightarrow> number \<Rightarrow> bool" where
  "js_le a b = (a \<noteq> NaN \<and> b \<noteq> NaN \<and> \<not> js_lt b a)"

text \<open>\<open>Math.min\<close> and \<open>Math.max\<close> of two arguments return \<open>NaN\<close> when either is.\<close>

definition Math_min :: "number \<Rightarrow> number \<Rightarrow> number" where
  "Math_min a b = (if a = NaN \<or> b = NaN then NaN else if js_lt b a then b else a)"

definition Math_max :: "number \<Rightarrow> number \<Rightarrow> number" where
  "Math_max a b = (if a = NaN \<or> b = NaN then NaN else if js_lt a b then b else a)"

fun Math_sqrt :: "number \<Rightarrow> number" where
  "Math_sqrt (Finite a) = (if a < 0 then NaN else Finite (sqrt a))"
| "Math_sqrt PosInf = PosInf"
| "Math_sqrt _ = NaN"

text \<open>\<open>Math.pow(v, 2)\<close>, the only power the program takes.\<close>

fun Math_pow2 :: "number \<Rightarrow> number" where
  "Math_pow2 (Finite a) = Finite (a\<^sup>2)"
| "Math_pow2 NaN = NaN"
| "Math_pow2 _ = PosInf"

section \<open>Rounding to double precision\<close>

text \<open>
  The crossing test compares products of rounded determinants with zero, and there the
  rounding decides: its arithmetic is modelled with the rounding of the binary64 format.
  \<open>fl64\<close> rounds a real number to the nearest double, ties to the even significand: in
  the binade \<open>2^e \<le> |x| < 2^(e+1)\<close> the doubles are the multiples of \<open>2^(e-52)\<close>, below
  \<open>2^-1022\<close> (the subnormal range) they are the multiples of \<open>2^-1074\<close>, and a result of
  magnitude \<open>2^1024\<close> or more is an infinity. A result that rounds to zero is the one zero
  of the model. \<open>sub64\<close> and \<open>mul64\<close> are \<open>-\<close> and \<open>*\<close> on doubles: the exact result,
  rounded.
\<close>

definition pow2 :: "int \<Rightarrow> real" where
  "pow2 k = (if 0 \<le> k then 2 ^ nat k else 1 / 2 ^ nat (- k))"

definition roundEven :: "real \<Rightarrow> int" where
  "roundEven x =
     (let f = \<lfloor>x\<rfloor>; d = x - of_int f
      in if d < 1 / 2 then f else if 1 / 2 < d then f + 1 else if even f then f else f + 1)"

definition exponent64 :: "real \<Rightarrow> int" where
  "exponent64 x = max \<lfloor>log 2 \<bar>x\<bar>\<rfloor> (- 1022)"

definition fl64 :: "real \<Rightarrow> number" where
  "fl64 x =
     (if x = 0 then Finite 0
      else let u = pow2 (exponent64 x - 52); y = of_int (roundEven (x / u)) * u
           in if pow2 1024 \<le> \<bar>y\<bar> then (if 0 < x then PosInf else NegInf) else Finite y)"

fun rounded :: "number \<Rightarrow> number" where
  "rounded (Finite c) = fl64 c"
| "rounded v = v"

definition sub64 :: "number \<Rightarrow> number \<Rightarrow> number" where
  "sub64 a b = rounded (js_sub a b)"

definition mul64 :: "number \<Rightarrow> number \<Rightarrow> number" where
  "mul64 a b = rounded (js_mul a b)"

section \<open>Data model\<close>

text \<open>
  \<open>Node\<close>, \<open>Edge\<close> and \<open>GraphData\<close> are imported by the layout module from the data module;
  their shape is the one of the object literals the layout code builds and reads:
  \<open>{id, x, y}\<close>, \<open>{source, target}\<close> and \<open>{nodes, edges}\<close>.
\<close>

record Node =
  node_id :: string
  node_x :: number
  node_y :: number

record Edge =
  source :: string
  target :: string

record GraphData =
  nodes :: "Node list"
  edges :: "Edge list"

record LayoutOptions =
  width :: number
  height :: number
  iterations :: number
  alpha :: number
  alphaDecay :: number
  velocityDecay :: number
  chargeStrength :: number
  linkDistance :: number
  linkStrength :: number

section \<open>Metric engine\<close>

text \<open>
  \<open>new Map(nodes.map(node => [node.id, node]))\<close>: the entries are inserted in list order,
  so a later node replaces an earlier one with the same identifier.
\<close>

definition nodeMap :: "Node list \<Rightarrow> (string \<rightharpoonup> Node)" where
  "nodeMap ns = foldl (\<lambda>m node. m(node_id node \<mapsto> node)) Map.empty ns"

text \<open>
  The four orientation determinants of \<open>doEdgesCross\<close>, as the source writes them, and the
  test on them, in exact arithmetic: the values and the answer that the formulas of the
  source denote. The symmetry of the test, the exclusion of shared endpoints and the count
  of the pairs do not depend on the rounding and are proved of this form.
\<close>

definition det1 :: "Node \<Rightarrow> Node \<Rightarrow> Node \<Rightarrow> Node \<Rightarrow> number" where
  "det1 node1 node2 node3 node4 =
     js_sub (js_mul (js_sub (node_x node1) (node_x node3)) (js_sub (node_y node4) (node_y node3)))
            (js_mul (js_sub (node_y node1) (node_y node3)) (js_sub (node_x node4) (node_x node3)))"

definition det2 :: "Node \<Rightarrow> Node \<Rightarrow> Node \<Rightarrow> Node \<Rightarrow> number" where
  "det2 node1 node2 node3 node4 =
     js_sub (js_mul (js_sub (node_x node2) (node_x node3)) (js_sub (node_y node4) (node_y node3)))
            (js_mul (js_sub (node_y node2) (node_y node3)) (js_sub (node_x node4) (node_x node3)))"

definition det3 :: "Node \<Rightarrow> Node \<Rightarrow> Node \<Rightarrow> Node \<Rightarrow> number" where
  "det3 node1 node2 node3 node4 =
     js_sub (js_mul (js_sub (node_x node3) (node_x node1)) (js_sub (node_y node2) (node_y node1)))
            (js_mul (js_sub (node_y node3) (node_y node1)) (js_sub (node_x node2) (node_x node1)))"

definition det4 :: "Node \<Rightarrow> Node \<Rightarrow> Node \<Rightarrow> Node \<Rightarrow> number" where
  "det4 node1 node2 node3 node4 =
     js_sub (js_mul (js_sub (node_x node4) (node_x node1)) (js_sub (node_y node2) (node_y node1)))
            (js_mul (js_sub (node_y node4) (node_y node1)) (js_sub (node_x node2) (node_x node1)))"

definition doEdgesCross :: "Node \<Rightarrow> Node \<Rightarrow> Node \<Rightarrow> Node \<Rightarrow> bool" where
  "doEdgesCross node1 node2 node3 node4 =
     (if node_id node1 = node_id node3 \<or> node_id node1 = node_id node4 \<or>
         node_id node2 = node_id node3 \<or> node_id node2 = node_id node4
      then False
      else js_lt (js_mul (det1 node1 node2 node3 node4) (det2 node1 node2 node3 node4)) (Finite 0) \<and>
           js_lt (js_mul (det3 node1 node2 node3 node4) (det4 node1 node2 node3 node4)) (Finite 0))"

text \<open>
  \<open>doEdgesCross\<close> once more, line by line, in the arithmetic of doubles: every \<open>-\<close> and \<open>*\<close>
  of the source rounds its result. The sign of a zero plays no part: the function only
  subtracts, multiplies and compares with \<open>0\<close>, a zero of either sign is not \<open>< 0\<close>, and no
  operation here turns the sign of a zero into a nonzero value.
\<close>

definition doEdgesCross64 :: "Node \<Rightarrow> Node \<Rightarrow> Node \<Rightarrow> Node \<Rightarrow> bool" where
  "doEdgesCross64 node1 node2 node3 node4 =
     (if node_id node1 = node_id node3 \<or> node_id node1 = node_id node4 \<or>
         node_id node2 = node_id node3 \<or> node_id node2 = node_id node4
      then False
      else
        let x1 = node_x node1; y1 = node_y node1;
            x2 = node_x node2; y2 = node_y node2;
            x3 = node_x node3; y3 = node_y node3;
            x4 = node_x node4; y4 = node_y node4;
            det1 = sub64 (mul64 (sub64 x1 x3) (sub64 y4 y3)) (mul64 (sub64 y1 y3) (sub64 x4 x3));
            det2 = sub64 (mul64 (sub64 x2 x3) (sub64 y4 y3)) (mul64 (sub64 y2 y3) (sub64 x4 x3));
            det3 = sub64 (mul64 (sub64 x3 x1) (sub64 y2 y1)) (mul64 (sub64 y3 y1) (sub64 x2 x1));
            det4 = sub64 (mul64 (sub64 x4 x1) (sub64 y2 y1)) (mul64 (sub64 y4 y1) (sub64 x2 x1))
        in js_lt (mul64 det1 det2) (Finite 0) \<and> js_lt (mul64 det3 det4) (Finite 0))"

text \<open>
  The test in the body of the double loop of \<open>calculateEdgeCrossings\<close>: the four
  endpoints are looked up in the map, and the pair counts when all four are found and
  \<open>doEdgesCross\<close> holds of them.
\<close>

definition edgesCross :: "(string \<rightharpoonup> Node) \<Rightarrow> Edge \<Rightarrow> Edge \<Rightarrow> bool" where
  "edgesCross m edge1 edge2 =
     (case (m (source edge1), m (target edge1), m (source edge2), m (target edge2)) of
        (Some node1, Some node2, Some node3, Some node4) \<Rightarrow> doEdgesCross node1 node2 node3 node4
      | _ \<Rightarrow> False)"

text \<open>
  The two \<open>for\<close> loops run \<open>i\<close> over \<open>0 .. length - 1\<close> and \<open>j\<close> over \<open>i + 1 .. length - 1\<close>;
  both are folds over the index ranges, with the counter as the state.
\<close>

definition calculateEdgeCrossings :: "Node list \<Rightarrow> Edge list \<Rightarrow> nat" where
  "calculateEdgeCrossings ns es =
     (let m = nodeMap ns in
      fold (\<lambda>i crossings.
             fold (\<lambda>j crossings.
                    if edgesCross m (es ! i) (es ! j) then crossings + 1 else crossings)
                  [i + 1 ..< length es] crossings)
           [0 ..< length es] 0)"

text \<open>The distance computed in both distance metrics.\<close>

definition distance :: "Node \<Rightarrow> Node \<Rightarrow> number" where
  "distance a b =
     Math_sqrt (js_add (Math_pow2 (js_sub (node_x a) (node_x b)))
                       (Math_pow2 (js_sub (node_y a) (node_y b))))"

text \<open>
  \<open>calculateAverageDistance\<close>: the \<open>for ... of\<close> loop carries \<open>totalDistance\<close> and
  \<open>edgeCount\<close>; the final division is guarded by \<open>edgeCount > 0\<close>.
\<close>

definition averageStep :: "(string \<rightharpoonup> Node) \<Rightarrow> Edge \<Rightarrow> number \<times> nat \<Rightarrow> number \<times> nat" where
  "averageStep m edge acc =
     (case (m (source edge), m (target edge)) of
        (Some s, Some t) \<Rightarrow> (js_add (fst acc) (distance s t), snd acc + 1)
      | _ \<Rightarrow> acc)"

definition calculateAverageDistance :: "Node list \<Rightarrow> Edge list \<Rightarrow> number" where
  "calculateAverageDistance ns es =
     (let m = nodeMap ns;
          (totalDistance, edgeCount) = fold (averageStep m) es (Finite 0, 0)
      in if edgeCount > 0 then js_div totalDistance (Finite (real edgeCount)) else Finite 0)"


section \<open>Layout engine\<close>

text \<open>
  The constructor merges the caller's partial options over the defaults
  (\<open>{ width: 800, ..., ...options }\<close>): a field the caller gives replaces the default.
  Nothing is checked.
\<close>

record PartialLayoutOptions =
  opt_width :: "number option"
  opt_height :: "number option"
  opt_iterations :: "number option"
  opt_alpha :: "number option"
  opt_alphaDecay :: "number option"
  opt_velocityDecay :: "number option"
  opt_chargeStrength :: "number option"
  opt_linkDistance :: "number option"
  opt_linkStrength :: "number option"

definition orDefault :: "number option \<Rightarrow> number \<Rightarrow> number" where
  "orDefault given dflt = (case given of Some v \<Rightarrow> v | None \<Rightarrow> dflt)"

definition constructor :: "PartialLayoutOptions \<Rightarrow> LayoutOptions" where
  "constructor options =
     \<lparr> width = orDefault (opt_width options) (Finite 800),
       height = orDefault (opt_height options) (Finite 600),
       iterations = orDefault (opt_iterations options) (Finite 300),
       alpha = orDefault (opt_alpha options) (Finite (3 / 10)),
       alphaDecay = orDefault (opt_alphaDecay options) (Finite (228 / 10000)),
       velocityDecay = orDefault (opt_velocityDecay options) (Finite (4 / 10)),
       chargeStrength = orDefault (opt_chargeStrength options) (Finite (- 30)),
       linkDistance = orDefault (opt_linkDistance options) (Finite 100),
       linkStrength = orDefault (opt_linkStrength options) (Finite 1) \<rparr>"

text \<open>
  The force simulation is the d3 library, which is not part of the program: it is a
  parameter of the model. \<open>forceSimulation\<close> stands for the whole construction chain
  (\<open>d3.forceSimulation(nodes).force('link', ...) ... .velocityDecay(...)\<close>), which
  receives the scaled nodes, the links and the options the chain reads, and either throws
  or yields a simulation; \<open>tick\<close> is one call of \<open>simulation.tick()\<close>; \<open>sim_nodes\<close> reads
  the node objects, which the library updates in place, back from the simulation. The
  timer that the library starts for itself runs only after \<open>optimizeLayout\<close> has returned
  and has no part in the result.
\<close>

datatype error = LibraryError string

record 's SimulationLibrary =
  forceSimulation :: "LayoutOptions \<Rightarrow> Node list \<Rightarrow> Edge list \<Rightarrow> error + 's"
  tick :: "'s \<Rightarrow> 's"
  sim_nodes :: "'s \<Rightarrow> Node list"

text \<open>
  \<open>for (let i = 0; i < iterations; i++) simulation.tick()\<close>. Both \<open>i\<close> and the bound are
  numbers, and the loop does not end when the bound is \<open>Infinity\<close>: not returning is the
  value \<open>None\<close>.
\<close>

partial_function (option) tickLoop :: "('s \<Rightarrow> 's) \<Rightarrow> number \<Rightarrow> number \<Rightarrow> 's \<Rightarrow> 's option" where
  "tickLoop tk n i simulation =
     (if js_lt i n then tickLoop tk n (js_add i (Finite 1)) (tk simulation)
      else Some simulation)"

text \<open>
  \<open>Math.max(0, Math.min(1, v))\<close>, the final clamping of a rescaled coordinate; \<open>scaleUp\<close>,
  \<open>copyEdge\<close> and \<open>scaleDown\<close> are the three arrow functions that \<open>optimizeLayout\<close> maps
  over the nodes, the edges and the simulated nodes.
\<close>

definition clamp01 :: "number \<Rightarrow> number" where
  "clamp01 v = Math_max (Finite 0) (Math_min (Finite 1) v)"

definition scaleUp :: "LayoutOptions \<Rightarrow> Node \<Rightarrow> Node" where
  "scaleUp options node =
     \<lparr> node_id = node_id node,
       node_x = js_mul (node_x node) (width options),
       node_y = js_mul (node_y node) (height options) \<rparr>"

definition scaleDown :: "LayoutOptions \<Rightarrow> Node \<Rightarrow> Node" where
  "scaleDown options node =
     \<lparr> node_id = node_id node,
       node_x = clamp01 (js_div (node_x node) (width options)),
       node_y = clamp01 (js_div (node_y node) (height options)) \<rparr>"

definition copyEdge :: "Edge \<Rightarrow> Edge" where
  "copyEdge edge = \<lparr> source = source edge, target = target edge \<rparr>"

text \<open>
  \<open>optimizeLayout\<close>: \<open>None\<close> when the loop does not end, \<open>Some (Inl e)\<close> when the library
  throws \<open>e\<close> (the program catches nothing), \<open>Some (Inr result)\<close> when it returns.
\<close>

definition optimizeLayout ::
    "'s SimulationLibrary \<Rightarrow> LayoutOptions \<Rightarrow> GraphData \<Rightarrow> (error + Node list) option" where
  "optimizeLayout lib options graphData =
     (let ns = map (scaleUp options) (nodes graphData);
          links = map copyEdge (edges graphData)
      in case forceSimulation lib options ns links of
           Inl e \<Rightarrow> Some (Inl e)
         | Inr simulation \<Rightarrow>
             (case tickLoop (tick lib) (iterations options) (Finite 0) simulation of
                None \<Rightarrow> None
              | Some simulation' \<Rightarrow>
                  Some (Inr (map (scaleDown options) (sim_nodes lib simulation')))))"

section \<open>The layout engine on an explicit store\<close>

text \<open>
  Whether \<open>optimizeLayout\<close> mutates its input is a question about object identity, so the
  same function is modelled once more with the objects in a store. A store is the list of
  its cells, a reference is a position in it, and allocation appends a cell. The cells hold
  node objects, edge objects, arrays of references and graph objects
  (\<open>{nodes, edges}\<close>, two array references).
\<close>

type_synonym ref = nat

datatype obj = NodeObj Node | EdgeObj Edge | ArrayObj "ref list" | GraphObj ref ref

type_synonym heap = "obj list"

definition alloc :: "obj \<Rightarrow> heap \<Rightarrow> ref \<times> heap" where
  "alloc ob h = (length h, h @ [ob])"

fun allocAll :: "obj list \<Rightarrow> heap \<Rightarrow> ref list \<times> heap" where
  "allocAll [] h = ([], h)"
| "allocAll (ob # obs) h =
     (let (r, h1) = alloc ob h; (rs, h2) = allocAll obs h1 in (r # rs, h2))"

definition readCell :: "heap \<Rightarrow> ref \<Rightarrow> obj option" where
  "readCell h r = (if r < length h then Some (h ! r) else None)"

definition readNode :: "heap \<Rightarrow> ref \<Rightarrow> Node option" where
  "readNode h r = (case readCell h r of Some (NodeObj node) \<Rightarrow> Some node | _ \<Rightarrow> None)"

definition readEdge :: "heap \<Rightarrow> ref \<Rightarrow> Edge option" where
  "readEdge h r = (case readCell h r of Some (EdgeObj edge) \<Rightarrow> Some edge | _ \<Rightarrow> None)"

definition readNodes :: "heap \<Rightarrow> ref \<Rightarrow> Node list option" where
  "readNodes h r =
     (case readCell h r of Some (ArrayObj rs) \<Rightarrow> those (map (readNode h) rs) | _ \<Rightarrow> None)"

definition readEdges :: "heap \<Rightarrow> ref \<Rightarrow> Edge list option" where
  "readEdges h r =
     (case readCell h r of Some (ArrayObj rs) \<Rightarrow> those (map (readEdge h) rs) | _ \<Rightarrow> None)"

text \<open>
  \<open>array.map(f)\<close> where \<open>f\<close> builds a new object literal from the fields of its argument:
  the elements are read, one new object is allocated for each, and a new array holds the
  new references. \<open>None\<close> when the store does not hold an array of such objects there.
\<close>

definition mapNodes :: "(Node \<Rightarrow> Node) \<Rightarrow> heap \<Rightarrow> ref \<Rightarrow> (ref \<times> heap) option" where
  "mapNodes f h r =
     (case readNodes h r of
        None \<Rightarrow> None
      | Some ns \<Rightarrow>
          (let (rs, h1) = allocAll (map (\<lambda>node. NodeObj (f node)) ns) h
           in Some (alloc (ArrayObj rs) h1)))"

definition mapEdges :: "(Edge \<Rightarrow> Edge) \<Rightarrow> heap \<Rightarrow> ref \<Rightarrow> (ref \<times> heap) option" where
  "mapEdges f h r =
     (case readEdges h r of
        None \<Rightarrow> None
      | Some es \<Rightarrow>
          (let (rs, h1) = allocAll (map (\<lambda>edge. EdgeObj (f edge)) es) h
           in Some (alloc (ArrayObj rs) h1)))"

text \<open>
  The library on the store: the construction chain receives the references of the two
  arrays and may write to the store; so may every tick. \<open>h_above s b\<close> says that every
  reference the simulation \<open>s\<close> holds is at or above \<open>b\<close>.
\<close>

record 's HeapLibrary =
  h_forceSimulation :: "LayoutOptions \<Rightarrow> ref \<Rightarrow> ref \<Rightarrow> heap \<Rightarrow> (error + 's) \<times> heap"
  h_tick :: "'s \<Rightarrow> heap \<Rightarrow> 's \<times> heap"
  h_above :: "'s \<Rightarrow> ref \<Rightarrow> bool"

text \<open>
  \<open>optimizeLayout\<close> on the store, given the reference of the graph object. It returns the
  outcome (an error, or the reference of the result array) with the final store;
  \<open>None\<close> when the loop does not end. \<open>IllFormed\<close> is the outcome on a store that does not
  hold a graph of nodes and edges at the reference, which the types of the program exclude.
\<close>

datatype 'a outcome = Thrown error | IllFormed | Returned 'a

definition optimizeLayoutOnHeap ::
    "'s HeapLibrary \<Rightarrow> LayoutOptions \<Rightarrow> ref \<Rightarrow> heap \<Rightarrow> (ref outcome \<times> heap) option" where
  "optimizeLayoutOnHeap lib options graphData h =
     (case readCell h graphData of
        Some (GraphObj nodesRef edgesRef) \<Rightarrow>
          (case mapNodes (scaleUp options) h nodesRef of
             None \<Rightarrow> Some (IllFormed, h)
           | Some (ns, h1) \<Rightarrow>
               (case mapEdges copyEdge h1 edgesRef of
                  None \<Rightarrow> Some (IllFormed, h1)
                | Some (links, h2) \<Rightarrow>
                    (case h_forceSimulation lib options ns links h2 of
                       (Inl e, h3) \<Rightarrow> Some (Thrown e, h3)
                     | (Inr simulation, h3) \<Rightarrow>
                         (case tickLoop (\<lambda>(s, h). h_tick lib s h) (iterations options) (Finite 0)
                                 (simulation, h3) of
                            None \<Rightarrow> None
                          | Some (simulation', h4) \<Rightarrow>
                              (case mapNodes (scaleDown options) h4 ns of
                                 None \<Rightarrow> Some (IllFormed, h4)
                               | Some (result, h5) \<Rightarrow> Some (Returned result, h5))))))
      | _ \<Rightarrow> Some (IllFormed, h))"

section \<open>Notions used in the statements\<close>

text \<open>A number that is zero or \<open>NaN\<close>: what a determinant of a degenerate pair evaluates to.\<close>

definition zeroOrNaN :: "number \<Rightarrow> bool" where
  "zeroOrNaN a = (a = Finite 0 \<or> a = NaN)"

text \<open>
  Two determinants of strictly opposite sign: the two endpoints lie strictly on different
  sides of the other segment's supporting line.
\<close>

definition oppositeSides :: "number \<Rightarrow> number \<Rightarrow> bool" where
  "oppositeSides a b =
     ((js_lt a (Finite 0) \<and> js_lt (Finite 0) b) \<or> (js_lt (Finite 0) a \<and> js_lt b (Finite 0)))"

text \<open>Two edges share an endpoint identifier.\<close>

definition shareEndpoint :: "Edge \<Rightarrow> Edge \<Rightarrow> bool" where
  "shareEndpoint e1 e2 =
     (source e1 = source e2 \<or> source e1 = target e2 \<or>
      target e1 = source e2 \<or> target e1 = target e2)"


text \<open>An edge is resolvable when both its endpoints are identifiers of vertices in the list.\<close>

definition resolvable :: "Node list \<Rightarrow> Edge \<Rightarrow> bool" where
  "resolvable ns e = (source e \<in> node_id ` set ns \<and> target e \<in> node_id ` set ns)"




text \<open>
  Vertices with finite coordinates, and the Euclidean distance of two of them as a real
  number.
\<close>

fun isFinite :: "number \<Rightarrow> bool" where
  "isFinite (Finite a) = True"
| "isFinite _ = False"

fun realOf :: "number \<Rightarrow> real" where
  "realOf (Finite a) = a"
| "realOf _ = 0"

definition finiteNode :: "Node \<Rightarrow> bool" where
  "finiteNode node = (isFinite (node_x node) \<and> isFinite (node_y node))"




text \<open>
  The number of rounds of the tick loop for an iteration count: the least natural number
  that is not below the count; none for \<open>NaN\<close> and \<open>-Infinity\<close>; for \<open>Infinity\<close> the loop
  has no last round.
\<close>

fun rounds :: "number \<Rightarrow> nat option" where
  "rounds (Finite r) = Some (nat \<lceil>r\<rceil>)"
| "rounds PosInf = None"
| "rounds _ = Some 0"

text \<open>A coordinate in the closed unit interval.\<close>

definition inUnit :: "number \<Rightarrow> bool" where
  "inUnit v = (js_le (Finite 0) v \<and> js_le v (Finite 1))"

text \<open>
  What the program relies on from the library. The library writes positions (and
  velocities) into the node objects it is given; it does not rename, add, remove or
  reorder them.
\<close>

definition keepsIdentifiers :: "'s SimulationLibrary \<Rightarrow> bool" where
  "keepsIdentifiers lib =
     ((\<forall>options ns links s. forceSimulation lib options ns links = Inr s \<longrightarrow>
          map node_id (sim_nodes lib s) = map node_id ns) \<and>
      (\<forall>s. map node_id (sim_nodes lib (tick lib s)) = map node_id (sim_nodes lib s)))"

text \<open>
  Constructing a simulation does not move a node whose position is given: when every link
  endpoint names a node and no coordinate is \<open>NaN\<close>, the construction succeeds and the
  nodes are as they were handed over.
\<close>

definition constructionKeepsNodes :: "'s SimulationLibrary \<Rightarrow> bool" where
  "constructionKeepsNodes lib =
     (\<forall>options ns links.
        (\<forall>l \<in> set links. resolvable ns l) \<and>
        (\<forall>n \<in> set ns. node_x n \<noteq> NaN \<and> node_y n \<noteq> NaN) \<longrightarrow>
        (\<exists>s. forceSimulation lib options ns links = Inr s \<and> sim_nodes lib s = ns))"

text \<open>
  \<open>preserved b h h'\<close>: the store \<open>h'\<close> extends \<open>h\<close> and agrees with it on every cell below
  \<open>b\<close>. \<open>aboveRef b h r\<close>: the reference \<open>r\<close>, and every element when it is an array, is at
  or above \<open>b\<close>.
\<close>

definition preserved :: "nat \<Rightarrow> heap \<Rightarrow> heap \<Rightarrow> bool" where
  "preserved b h h' = (length h \<le> length h' \<and> take b h' = take b h)"

definition aboveRef :: "nat \<Rightarrow> heap \<Rightarrow> ref \<Rightarrow> bool" where
  "aboveRef b h r =
     (b \<le> r \<and> (case readCell h r of Some (ArrayObj rs) \<Rightarrow> list_all (\<lambda>x. b \<le> x) rs | _ \<Rightarrow> True))"

text \<open>
  What a library can do to the store: it reaches objects only through the references it is
  given or holds, so it leaves alone every cell below all of them.
\<close>

definition confined :: "'s HeapLibrary \<Rightarrow> bool" where
  "confined lib =
     ((\<forall>options nodesRef linksRef h b.
         b \<le> length h \<and> aboveRef b h nodesRef \<and> aboveRef b h linksRef \<longrightarrow>
           preserved b h (snd (h_forceSimulation lib options nodesRef linksRef h)) \<and>
           (\<forall>s. fst (h_forceSimulation lib options nodesRef linksRef h) = Inr s \<longrightarrow> h_above lib s b)) \<and>
      (\<forall>s h b. b \<le> length h \<and> h_above lib s b \<longrightarrow>
           preserved b h (snd (h_tick lib s h)) \<and> h_above lib (fst (h_tick lib s h)) b))"

text \<open>
  The node objects of the array at \<open>a\<close>, whose elements are \<open>rs\<close>, hold the nodes \<open>xs\<close>: the
  invariant that ties a simulation of the value model to the store.
\<close>

definition holds :: "heap \<Rightarrow> ref \<Rightarrow> ref list \<Rightarrow> Node list \<Rightarrow> bool" where
  "holds h a rs xs =
     (readCell h a = Some (ArrayObj rs) \<and> distinct rs \<and> a \<notin> set rs \<and>
      (\<forall>r \<in> set rs. r < length h) \<and> length xs = length rs \<and> readNodes h a = Some xs)"

section \<open>Stand-ins for the library and concrete scenarios\<close>

text \<open>
  A stand-in for the library, used to run the model on concrete inputs. Its construction
  rejects a link with an endpoint that names no node, reporting the first such identifier,
  as the link force of d3-force does when it resolves the links, and otherwise leaves the
  nodes as they are (constructing a d3 simulation likewise leaves a node with numeric
  coordinates where it is); each tick moves every node one unit to the right.
\<close>

definition driftLibrary :: "(Node list) SimulationLibrary" where
  "driftLibrary =
     \<lparr> forceSimulation = (\<lambda>options ns links.
         case find (\<lambda>l. \<not> resolvable ns l) links of
           Some l \<Rightarrow>
             Inl (LibraryError (''node not found: '' @
                    (if source l \<in> node_id ` set ns then target l else source l)))
         | None \<Rightarrow> Inr ns),
       tick = map (\<lambda>node. node\<lparr> node_x := js_add (node_x node) (Finite 1) \<rparr>),
       sim_nodes = (\<lambda>ns. ns) \<rparr>"

text \<open>
  Any library of the value model acts on the store: it reads the nodes and links behind the
  references it is given, computes as before, and writes the simulated nodes back into the
  node objects of the array, which is what updating the nodes in place means.
\<close>

fun writeNodes :: "ref list \<Rightarrow> Node list \<Rightarrow> heap \<Rightarrow> heap" where
  "writeNodes (r # rs) (node # ns) h =
     writeNodes rs ns (if r < length h then h[r := NodeObj node] else h)"
| "writeNodes _ _ h = h"

definition elementsOf :: "heap \<Rightarrow> ref \<Rightarrow> ref list" where
  "elementsOf h r = (case readCell h r of Some (ArrayObj rs) \<Rightarrow> rs | _ \<Rightarrow> [])"

definition onHeap :: "'s SimulationLibrary \<Rightarrow> ('s \<times> ref list) HeapLibrary" where
  "onHeap lib =
     \<lparr> h_forceSimulation = (\<lambda>options nodesRef linksRef h.
         case (readNodes h nodesRef, readEdges h linksRef) of
           (Some ns, Some links) \<Rightarrow>
             (case forceSimulation lib options ns links of
                Inl e \<Rightarrow> (Inl e, h)
              | Inr s \<Rightarrow> (Inr (s, elementsOf h nodesRef),
                          writeNodes (elementsOf h nodesRef) (sim_nodes lib s) h))
         | _ \<Rightarrow> (Inl (LibraryError ''not an array of objects''), h)),
       h_tick = (\<lambda>(s, rs) h. ((tick lib s, rs), writeNodes rs (sim_nodes lib (tick lib s)) h)),
       h_above = (\<lambda>(s, rs) b. list_all (\<lambda>r. b \<le> r) rs) \<rparr>"

text \<open>Partial options that set the workspace and the iteration count only.\<close>

definition workspace :: "number \<Rightarrow> number \<Rightarrow> number \<Rightarrow> PartialLayoutOptions" where
  "workspace w h n =
     \<lparr> opt_width = Some w, opt_height = Some h, opt_iterations = Some n,
       opt_alpha = None, opt_alphaDecay = None, opt_velocityDecay = None,
       opt_chargeStrength = None, opt_linkDistance = None, opt_linkStrength = None \<rparr>"

text \<open>The corners of the unit square and its centre, for concrete scenarios.\<close>

definition mkNode :: "string \<Rightarrow> real \<Rightarrow> real \<Rightarrow> Node" where
  "mkNode i a b = \<lparr> node_id = i, node_x = Finite a, node_y = Finite b \<rparr>"

definition mkEdge :: "string \<Rightarrow> string \<Rightarrow> Edge" where
  "mkEdge s t = \<lparr> source = s, target = t \<rparr>"

definition squareNodes :: "Node list" where
  "squareNodes = [mkNode ''A'' 0 0, mkNode ''B'' 1 1, mkNode ''C'' 1 0, mkNode ''D'' 0 1]"


text \<open>
  Three scenarios for the crossing test in double arithmetic. In \<open>apartNodes\<close> the segment
  \<open>C\<close>--\<open>D\<close> stands above the middle of \<open>A\<close>--\<open>B\<close> without reaching it. \<open>tinySquareNodes\<close>
  is a square of side \<open>2^-300\<close> with its two diagonals. In \<open>teeNodes\<close> the end \<open>B\<close> of
  \<open>A\<close>--\<open>B\<close> lies on \<open>C\<close>--\<open>D\<close>, a third of the way from \<open>C\<close> to \<open>D\<close>; all its
  coordinates are doubles between 0 and 1.
\<close>

definition apartNodes :: "Node list" where
  "apartNodes = [mkNode ''A'' 0 0, mkNode ''B'' 1 0, mkNode ''C'' (1 / 2) 1, mkNode ''D'' (1 / 2) 2]"

definition tinySquareNodes :: "Node list" where
  "tinySquareNodes =
     [mkNode ''A'' 0 0, mkNode ''B'' (1 / 2 ^ 300) (1 / 2 ^ 300),
      mkNode ''C'' (1 / 2 ^ 300) 0, mkNode ''D'' 0 (1 / 2 ^ 300)]"

definition teeNodes :: "Node list" where
  "teeNodes =
     [mkNode ''A'' (1 / 2 ^ 56) 0, mkNode ''B'' ((2 ^ 53 + 2) / 2 ^ 56) (2 / 2 ^ 56),
      mkNode ''C'' (1 / 2 ^ 56) (1 / 2 ^ 56), mkNode ''D'' ((3 * 2 ^ 53 + 4) / 2 ^ 56) (4 / 2 ^ 56)]"

text \<open>A store holding the diagonal \<open>A\<close>--\<open>B\<close> of the unit square as a graph, at reference 5.\<close>

definition diagonalHeap :: heap where
  "diagonalHeap =
     [NodeObj (mkNode ''A'' 0 0), NodeObj (mkNode ''B'' 1 1), ArrayObj [0, 1],
      EdgeObj (mkEdge ''A'' ''B''), ArrayObj [3], GraphObj 2 4]"

section \<open>Properties of the numbers\<close>

lemma js_sub_self: "zeroOrNaN (js_sub a a)"
  by (cases a) (simp_all add: zeroOrNaN_def)

lemma js_mul_commute: "js_mul a b = js_mul b a"
  by (cases a; cases b) (simp_all add: mult.commute)

lemma js_mul_zeroOrNaN_left: "zeroOrNaN a \<Longrightarrow> zeroOrNaN (js_mul a b)"
  by (cases a; cases b) (simp_all add: zeroOrNaN_def)

lemma js_mul_zeroOrNaN_right: "zeroOrNaN b \<Longrightarrow> zeroOrNaN (js_mul a b)"
  by (simp add: js_mul_commute [of a b] js_mul_zeroOrNaN_left)

lemma js_sub_zeroOrNaN: "zeroOrNaN a \<Longrightarrow> zeroOrNaN b \<Longrightarrow> zeroOrNaN (js_sub a b)"
  by (cases a; cases b) (simp_all add: zeroOrNaN_def)

lemma zeroOrNaN_not_negative: "zeroOrNaN a \<Longrightarrow> \<not> js_lt a (Finite 0)"
  by (cases a) (simp_all add: zeroOrNaN_def)

lemma js_mul_self_not_negative: "\<not> js_lt (js_mul a a) (Finite 0)"
  by (cases a) simp_all

lemma js_mul_negative_iff: "js_lt (js_mul a b) (Finite 0) \<longleftrightarrow> oppositeSides a b"
  unfolding oppositeSides_def by (cases a; cases b) (auto simp: mult_less_0_iff)

section \<open>Properties of the rounding\<close>

lemma pow2_powr: "pow2 k = 2 powr (real_of_int k)"
  by (simp add: pow2_def powr_int)

lemma pow2_pos [simp]: "0 < pow2 k"
  by (simp add: pow2_powr)

lemma pow2_nonneg [simp]: "0 \<le> pow2 k"
  by (simp add: pow2_powr)

lemma pow2_abs [simp]: "\<bar>pow2 k\<bar> = pow2 k"
  by (simp add: pow2_powr)

lemma pow2_add: "pow2 (a + b) = pow2 a * pow2 b"
  by (simp add: pow2_powr powr_add)

lemma pow2_mono: "a \<le> b \<Longrightarrow> pow2 a \<le> pow2 b"
  by (simp add: pow2_powr)

lemma pow2_strict_mono: "a < b \<Longrightarrow> pow2 a < pow2 b"
  by (simp add: pow2_powr)

lemma exponent64_normal:
  assumes "pow2 k \<le> \<bar>x\<bar>" and "\<bar>x\<bar> < pow2 (k + 1)" and "- 1022 \<le> k"
  shows "exponent64 x = k"
proof -
  from assms(1) have pos: "0 < \<bar>x\<bar>" using pow2_pos [of k] by linarith
  have "\<lfloor>log 2 \<bar>x\<bar>\<rfloor> = k"
    using assms(1,2) pos by (subst floor_log_eq_powr_iff) (simp_all add: pow2_powr)
  with assms(3) show ?thesis by (simp add: exponent64_def)
qed

lemma exponent64_subnormal:
  assumes "x \<noteq> 0" and "\<bar>x\<bar> < pow2 (- 1022)"
  shows "exponent64 x = - 1022"
proof -
  have "\<lfloor>log 2 \<bar>x\<bar>\<rfloor> < - 1022"
  proof (rule ccontr)
    assume "\<not> \<lfloor>log 2 \<bar>x\<bar>\<rfloor> < - 1022"
    then have "- 1022 \<le> \<lfloor>log 2 \<bar>x\<bar>\<rfloor>" by simp
    then have "real_of_int (- 1022) \<le> log 2 \<bar>x\<bar>" by (simp only: le_floor_iff)
    with assms(1) have "2 powr real_of_int (- 1022) \<le> \<bar>x\<bar>"
      by (simp add: powr_le_iff)
    with assms(2) show False by (simp add: pow2_powr)
  qed
  then show ?thesis by (simp add: exponent64_def)
qed

lemma roundEven_of_int [simp]: "roundEven (of_int m) = m"
  by (simp add: roundEven_def)

lemma roundEven_nonneg: "0 \<le> x \<Longrightarrow> 0 \<le> roundEven x"
  by (auto simp: roundEven_def Let_def)

lemma roundEven_nonpos: "x \<le> 0 \<Longrightarrow> roundEven x \<le> 0"
proof -
  assume x: "x \<le> 0"
  then have f: "\<lfloor>x\<rfloor> \<le> 0" by (simp add: floor_le_zero)
  show ?thesis
  proof (cases "\<lfloor>x\<rfloor> = 0")
    case True
    with x have "x = 0" by (metis floor_correct of_int_0 order_antisym)
    then show ?thesis using roundEven_of_int [of 0] by simp
  next
    case False
    with f have "\<lfloor>x\<rfloor> + 1 \<le> 0" by linarith
    moreover have "roundEven x = \<lfloor>x\<rfloor> \<or> roundEven x = \<lfloor>x\<rfloor> + 1"
      by (simp add: roundEven_def Let_def)
    ultimately show ?thesis using f by linarith
  qed
qed

lemma roundEven_near: "\<bar>of_int (roundEven x) - x\<bar> \<le> 1 / 2"
proof -
  have "of_int \<lfloor>x\<rfloor> \<le> x" "x < of_int \<lfloor>x\<rfloor> + 1" by linarith+
  then show ?thesis by (auto simp: roundEven_def Let_def)
qed

lemma fl64_zero [simp]: "fl64 0 = Finite 0"
  by (simp add: fl64_def)


lemma pow2_0 [simp]: "pow2 0 = 1"
  by (simp add: pow2_def)

lemma pow2_diff: "pow2 (a - b) = pow2 a / pow2 b"
  by (simp add: pow2_powr powr_diff)

lemma pow2_nat: "0 \<le> k \<Longrightarrow> pow2 k = of_int (2 ^ nat k)"
  by (simp add: pow2_def)

lemma roundEven_small: "\<bar>t\<bar> < 1 / 2 \<Longrightarrow> roundEven t = 0"
proof -
  assume t: "\<bar>t\<bar> < 1 / 2"
  show ?thesis
  proof (cases "0 \<le> t")
    case True
    with t have "\<lfloor>t\<rfloor> = 0" by (intro floor_unique) simp_all
    with t True show ?thesis by (simp add: roundEven_def Let_def)
  next
    case False
    with t have "\<lfloor>t\<rfloor> = - 1" by (intro floor_unique) simp_all
    with t False show ?thesis by (simp add: roundEven_def Let_def)
  qed
qed

lemma roundEven_abs_le:
  assumes "\<bar>t\<bar> < of_int n"
  shows "\<bar>roundEven t\<bar> \<le> n"
proof -
  have cases: "roundEven t = \<lfloor>t\<rfloor> \<or> roundEven t = \<lfloor>t\<rfloor> + 1"
    by (simp add: roundEven_def Let_def)
  from assms have "t < of_int n" by linarith
  then have up: "\<lfloor>t\<rfloor> < n" by (simp only: floor_less_iff)
  from assms have "of_int (- n) \<le> t" by simp
  then have low: "- n \<le> \<lfloor>t\<rfloor>" by (simp only: le_floor_iff)
  from cases up low show ?thesis by linarith
qed

text \<open>The value of \<open>fl64\<close> in the normal range, in the subnormal range, and below it.\<close>

lemma fl64_round:
  assumes low: "pow2 k \<le> \<bar>x\<bar>" and up: "\<bar>x\<bar> < pow2 (k + 1)"
    and k: "- 1022 \<le> k" "k \<le> 1022"
  shows "fl64 x = Finite (of_int (roundEven (x / pow2 (k - 52))) * pow2 (k - 52))"
proof -
  let ?u = "pow2 (k - 52)"
  let ?r = "roundEven (x / ?u)"
  from low have nz: "x \<noteq> 0" using pow2_pos [of k] by linarith
  have e: "exponent64 x = k" by (rule exponent64_normal [OF low up k(1)])
  have "\<bar>x / ?u\<bar> = \<bar>x\<bar> / ?u" by simp
  also have "\<dots> < pow2 (k + 1) / ?u" using up by (simp add: divide_strict_right_mono)
  also have "\<dots> = pow2 53" using pow2_diff [of "k + 1" "k - 52"] by simp
  also have "\<dots> = of_int (2 ^ 53)" by (simp add: pow2_def)
  finally have "\<bar>?r\<bar> \<le> 2 ^ 53" by (rule roundEven_abs_le)
  then have "\<bar>of_int ?r :: real\<bar> \<le> of_int (2 ^ 53)" by (simp only: of_int_abs [symmetric] of_int_le_iff)
  then have "\<bar>of_int ?r * ?u\<bar> \<le> of_int (2 ^ 53) * ?u"
    by (simp add: abs_mult mult_right_mono)
  also have "of_int (2 ^ 53) * ?u = pow2 53 * ?u" by (simp add: pow2_def)
  also have "\<dots> = pow2 (53 + (k - 52))" by (rule pow2_add [symmetric])
  also have "\<dots> = pow2 (k + 1)" by (rule arg_cong [where f = pow2]) linarith
  also have "\<dots> < pow2 1024" using k(2) by (intro pow2_strict_mono) simp
  finally have "\<not> pow2 1024 \<le> \<bar>of_int ?r * ?u\<bar>" by simp
  with nz e show ?thesis by (simp add: fl64_def Let_def)
qed

lemma fl64_subnormal:
  assumes nz: "x \<noteq> 0" and small: "\<bar>x\<bar> < pow2 (- 1022)"
  shows "fl64 x = Finite (of_int (roundEven (x / pow2 (- 1074))) * pow2 (- 1074))"
proof -
  let ?u = "pow2 (- 1074)"
  let ?r = "roundEven (x / ?u)"
  have e: "exponent64 x = - 1022" by (rule exponent64_subnormal [OF nz small])
  have "\<bar>x / ?u\<bar> = \<bar>x\<bar> / ?u" by simp
  also have "\<dots> < pow2 (- 1022) / ?u" using small by (simp add: divide_strict_right_mono)
  also have "\<dots> = pow2 52" using pow2_diff [of "- 1022" "- 1074"] by simp
  also have "\<dots> = of_int (2 ^ 52)" by (simp add: pow2_def)
  finally have "\<bar>?r\<bar> \<le> 2 ^ 52" by (rule roundEven_abs_le)
  then have "\<bar>of_int ?r :: real\<bar> \<le> of_int (2 ^ 52)" by (simp only: of_int_abs [symmetric] of_int_le_iff)
  then have "\<bar>of_int ?r * ?u\<bar> \<le> of_int (2 ^ 52) * ?u"
    by (simp add: abs_mult mult_right_mono)
  also have "of_int (2 ^ 52) * ?u = pow2 52 * ?u" by (simp add: pow2_def)
  also have "\<dots> = pow2 (52 + (- 1074))" by (rule pow2_add [symmetric])
  also have "\<dots> = pow2 (- 1022)" by simp
  also have "\<dots> < pow2 1024" by (intro pow2_strict_mono) simp
  finally have "\<not> pow2 1024 \<le> \<bar>of_int ?r * ?u\<bar>" by simp
  with nz e show ?thesis by (simp add: fl64_def Let_def)
qed

lemma fl64_underflow:
  assumes "\<bar>x\<bar> < pow2 (- 1075)"
  shows "fl64 x = Finite 0"
proof (cases "x = 0")
  case True
  then show ?thesis by simp
next
  case False
  have "pow2 (- 1075) < pow2 (- 1022)" by (intro pow2_strict_mono) simp
  with assms have small: "\<bar>x\<bar> < pow2 (- 1022)" by linarith
  have "\<bar>x / pow2 (- 1074)\<bar> = \<bar>x\<bar> / pow2 (- 1074)" by simp
  also have "\<dots> < pow2 (- 1075) / pow2 (- 1074)"
    using assms by (simp add: divide_strict_right_mono)
  also have "\<dots> = 1 / 2" using pow2_diff [of "- 1075" "- 1074"] by (simp add: pow2_def)
  finally have "roundEven (x / pow2 (- 1074)) = 0" by (rule roundEven_small)
  with fl64_subnormal [OF False small] show ?thesis by simp
qed

text \<open>
  A number \<open>m * 2^e\<close> with \<open>|m| < 2^53\<close> and \<open>e\<close> from \<open>-1074\<close> to \<open>970\<close> is a double: rounding
  leaves it as it is.
\<close>

lemma fl64_exact:
  assumes x: "x = of_int m * pow2 e" and m: "\<bar>m\<bar> < 2 ^ 53" and e: "- 1074 \<le> e" "e \<le> 970"
  shows "fl64 x = Finite x"
proof (cases "x = 0")
  case True
  then show ?thesis by simp
next
  case False
  let ?E = "exponent64 x"
  have "\<bar>x\<bar> = \<bar>of_int m :: real\<bar> * pow2 e" by (simp add: x abs_mult)
  also have "\<bar>of_int m :: real\<bar> < of_int (2 ^ 53)"
    using m by (simp only: of_int_abs [symmetric] of_int_less_iff)
  then have "\<bar>of_int m :: real\<bar> * pow2 e < of_int (2 ^ 53) * pow2 e"
    by (simp add: mult_strict_right_mono)
  also have "of_int (2 ^ 53) * pow2 e = pow2 (e + 53)"
    using pow2_add [of 53 e] by (simp add: pow2_def add.commute)
  finally have bound: "\<bar>x\<bar> < pow2 (e + 53)" .
  from False have pos: "0 < \<bar>x\<bar>" by simp
  from bound pos have "log 2 \<bar>x\<bar> < real_of_int (e + 53)"
    by (simp add: pow2_powr log_less_iff)
  then have "\<lfloor>log 2 \<bar>x\<bar>\<rfloor> < e + 53" by (simp only: floor_less_iff)
  with e(1) have E: "?E - 52 \<le> e" by (simp add: exponent64_def)
  define j where "j = e - (?E - 52)"
  from E have j: "0 \<le> j" by (simp add: j_def)
  have "x / pow2 (?E - 52) = of_int m * (pow2 e / pow2 (?E - 52))" by (simp add: x)
  also have "pow2 e / pow2 (?E - 52) = pow2 j" by (simp add: j_def pow2_diff)
  also have "\<dots> = of_int (2 ^ nat j)" by (rule pow2_nat [OF j])
  finally have "x / pow2 (?E - 52) = of_int (m * 2 ^ nat j)" by simp
  then have "roundEven (x / pow2 (?E - 52)) = m * 2 ^ nat j" by (simp only: roundEven_of_int)
  then have "of_int (roundEven (x / pow2 (?E - 52))) * pow2 (?E - 52) =
             of_int m * (pow2 j * pow2 (?E - 52))"
    by (simp add: pow2_nat [OF j])
  also have "pow2 j * pow2 (?E - 52) = pow2 e"
    using pow2_add [of j "?E - 52"] by (simp add: j_def)
  finally have y: "of_int (roundEven (x / pow2 (?E - 52))) * pow2 (?E - 52) = x"
    by (simp add: x)
  have "pow2 (e + 53) \<le> pow2 1024" using e(2) by (intro pow2_mono) simp
  with bound have "\<not> pow2 1024 \<le> \<bar>x\<bar>" by linarith
  with False y show ?thesis by (simp add: fl64_def Let_def)
qed

text \<open>Rounding keeps the sign, or gives zero.\<close>

lemma fl64_negative_iff: "js_lt (fl64 c) (Finite 0) \<longleftrightarrow> c < 0 \<and> fl64 c \<noteq> Finite 0"
proof (cases "c = 0")
  case True
  then show ?thesis by simp
next
  case False
  let ?u = "pow2 (exponent64 c - 52)"
  let ?r = "roundEven (c / ?u)"
  show ?thesis
  proof (cases "c < 0")
    case True
    then have "c / ?u \<le> 0" by (simp add: divide_nonpos_pos)
    then have "?r \<le> 0" by (rule roundEven_nonpos)
    then have "of_int ?r * ?u \<le> 0" by (intro mult_nonpos_nonneg) simp_all
    then have "of_int ?r * ?u < 0 \<longleftrightarrow> of_int ?r * ?u \<noteq> 0" by linarith
    with True False show ?thesis by (simp add: fl64_def Let_def)
  next
    case neg: False
    with False have "0 \<le> c / ?u" by simp
    then have "0 \<le> ?r" by (rule roundEven_nonneg)
    then have "0 \<le> of_int ?r * ?u" by simp
    then have "\<not> of_int ?r * ?u < 0" by linarith
    with neg False show ?thesis by (simp add: fl64_def Let_def)
  qed
qed

lemma rounded_negative_iff:
  "js_lt (rounded v) (Finite 0) \<longleftrightarrow> js_lt v (Finite 0) \<and> rounded v \<noteq> Finite 0"
  by (cases v) (simp_all add: fl64_negative_iff)

lemma mul64_negative_iff:
  "js_lt (mul64 a b) (Finite 0) \<longleftrightarrow> oppositeSides a b \<and> mul64 a b \<noteq> Finite 0"
  unfolding mul64_def by (simp only: rounded_negative_iff js_mul_negative_iff)

lemma rounded_zeroOrNaN: "zeroOrNaN v \<Longrightarrow> zeroOrNaN (rounded v)"
  by (auto simp: zeroOrNaN_def)

lemma sub64_self: "zeroOrNaN (sub64 a a)"
  unfolding sub64_def by (intro rounded_zeroOrNaN js_sub_self)

lemma mul64_commute: "mul64 a b = mul64 b a"
  by (simp add: mul64_def js_mul_commute [of a b])

lemma mul64_zeroOrNaN_left: "zeroOrNaN a \<Longrightarrow> zeroOrNaN (mul64 a b)"
  unfolding mul64_def by (intro rounded_zeroOrNaN js_mul_zeroOrNaN_left)

lemma mul64_zeroOrNaN_right: "zeroOrNaN b \<Longrightarrow> zeroOrNaN (mul64 a b)"
  unfolding mul64_def by (intro rounded_zeroOrNaN js_mul_zeroOrNaN_right)

lemma sub64_zeroOrNaN: "zeroOrNaN a \<Longrightarrow> zeroOrNaN b \<Longrightarrow> zeroOrNaN (sub64 a b)"
  unfolding sub64_def by (intro rounded_zeroOrNaN js_sub_zeroOrNaN)

lemma zeroOrNaN_product64_left: "zeroOrNaN a \<Longrightarrow> \<not> js_lt (mul64 a b) (Finite 0)"
  by (rule zeroOrNaN_not_negative) (rule mul64_zeroOrNaN_left)

lemma zeroOrNaN_product64_right: "zeroOrNaN b \<Longrightarrow> \<not> js_lt (mul64 a b) (Finite 0)"
  by (rule zeroOrNaN_not_negative) (rule mul64_zeroOrNaN_right)

text \<open>
  The determinant of a point against a segment it is an endpoint of is zero or \<open>NaN\<close>, also
  after rounding: either both factors of each product vanish, or the two products are the
  same rounded number.
\<close>

lemma det64_first_endpoint:
  "zeroOrNaN (sub64 (mul64 (sub64 x x) b) (mul64 (sub64 y y) d))"
  by (intro sub64_zeroOrNaN mul64_zeroOrNaN_left sub64_self)

lemma det64_second_endpoint:
  "zeroOrNaN (sub64 (mul64 a b) (mul64 b a))"
  by (simp only: mul64_commute [of b a] sub64_self)


lemma floor_minus_one: "\<lfloor>- 1 :: real\<rfloor> = - 1"
  by (rule floor_unique) simp_all

text \<open>
  The same on a grid: a number that is a multiple of \<open>2^e\<close> by less than \<open>2^53\<close> is a double.
  In this form the rule evaluates \<open>fl64\<close> on a numeral once \<open>e\<close> is given.
\<close>

lemma fl64_grid:
  assumes "of_int \<lfloor>x * pow2 (- e)\<rfloor> = x * pow2 (- e)" and "\<bar>\<lfloor>x * pow2 (- e)\<rfloor>\<bar> < 2 ^ 53"
    and "- 1074 \<le> e" and "e \<le> 970"
  shows "fl64 x = Finite x"
proof (rule fl64_exact [OF _ assms(2-4)])
  have "pow2 (- e) * pow2 e = pow2 (- e + e)" by (rule pow2_add [symmetric])
  then have "pow2 (- e) * pow2 e = 1" by simp
  then have "x * pow2 (- e) * pow2 e = x" by (simp only: mult.assoc mult_1_right)
  then show "x = of_int \<lfloor>x * pow2 (- e)\<rfloor> * pow2 e" by (simp only: assms(1))
qed

section \<open>Properties of the node map\<close>

lemma foldl_nodeMap:
  "foldl (\<lambda>m node. m(node_id node \<mapsto> node)) m0 ns =
     m0 ++ map_of (rev (map (\<lambda>node. (node_id node, node)) ns))"
proof (induction ns arbitrary: m0)
  case Nil
  show ?case by simp
next
  case (Cons a ns)
  let ?g = "\<lambda>node. (node_id node, node)"
  have "foldl (\<lambda>m node. m(node_id node \<mapsto> node)) m0 (a # ns) =
        m0(node_id a \<mapsto> a) ++ map_of (rev (map ?g ns))"
    unfolding foldl_Cons by (rule Cons.IH)
  also have "\<dots> = m0 ++ ([node_id a \<mapsto> a] ++ map_of (rev (map ?g ns)))"
    by (rule ext) (simp add: map_add_def split: option.splits)
  also have "[node_id a \<mapsto> a] ++ map_of (rev (map ?g ns)) = map_of (rev (map ?g (a # ns)))"
    by (simp add: map_of_append)
  finally show ?case .
qed

lemma nodeMap_map_of: "nodeMap ns = map_of (rev (map (\<lambda>node. (node_id node, node)) ns))"
  by (simp add: nodeMap_def foldl_nodeMap)

lemma nodeMap_Some: "nodeMap ns k = Some n \<Longrightarrow> node_id n = k \<and> n \<in> set ns"
  by (auto simp: nodeMap_map_of dest!: map_of_SomeD)


lemma nodeMap_same_id:
  assumes "nodeMap ns k = Some p" and "nodeMap ns l = Some q" and "node_id p = node_id q"
  shows "p = q"
  using assms nodeMap_Some [of ns k p] nodeMap_Some [of ns l q] by simp

section \<open>The crossing test\<close>

text \<open>
  C3, as amended. \<open>doEdgesCross\<close> is private and is called only on nodes looked up in the
  node map of \<open>calculateEdgeCrossings\<close>. On every such call it answers true exactly when
  the two products \<open>det1 * det2\<close> and \<open>det3 * det4\<close>, as computed in doubles from the four
  computed determinants, are both negative; that is, exactly when the computed
  determinants of each pair have strictly opposite signs and neither computed product is
  zero. A computed product that is zero or \<open>NaN\<close> is never a crossing.
\<close>

theorem doEdgesCross_iff_products_negative:
  assumes "nodeMap ns a = Some node1" and "nodeMap ns b = Some node2"
    and "nodeMap ns c = Some node3" and "nodeMap ns d = Some node4"
  shows
    "let x1 = node_x node1; y1 = node_y node1;
         x2 = node_x node2; y2 = node_y node2;
         x3 = node_x node3; y3 = node_y node3;
         x4 = node_x node4; y4 = node_y node4;
         d1 = sub64 (mul64 (sub64 x1 x3) (sub64 y4 y3)) (mul64 (sub64 y1 y3) (sub64 x4 x3));
         d2 = sub64 (mul64 (sub64 x2 x3) (sub64 y4 y3)) (mul64 (sub64 y2 y3) (sub64 x4 x3));
         d3 = sub64 (mul64 (sub64 x3 x1) (sub64 y2 y1)) (mul64 (sub64 y3 y1) (sub64 x2 x1));
         d4 = sub64 (mul64 (sub64 x4 x1) (sub64 y2 y1)) (mul64 (sub64 y4 y1) (sub64 x2 x1))
     in (doEdgesCross64 node1 node2 node3 node4 \<longleftrightarrow>
           js_lt (mul64 d1 d2) (Finite 0) \<and> js_lt (mul64 d3 d4) (Finite 0)) \<and>
        (doEdgesCross64 node1 node2 node3 node4 \<longleftrightarrow>
           oppositeSides d1 d2 \<and> oppositeSides d3 d4 \<and>
           mul64 d1 d2 \<noteq> Finite 0 \<and> mul64 d3 d4 \<noteq> Finite 0) \<and>
        (zeroOrNaN (mul64 d1 d2) \<or> zeroOrNaN (mul64 d3 d4)
           \<longrightarrow> \<not> doEdgesCross64 node1 node2 node3 node4)"
proof -
  let ?x1 = "node_x node1" and ?y1 = "node_y node1"
  let ?x2 = "node_x node2" and ?y2 = "node_y node2"
  let ?x3 = "node_x node3" and ?y3 = "node_y node3"
  let ?x4 = "node_x node4" and ?y4 = "node_y node4"
  let ?d1 = "sub64 (mul64 (sub64 ?x1 ?x3) (sub64 ?y4 ?y3)) (mul64 (sub64 ?y1 ?y3) (sub64 ?x4 ?x3))"
  let ?d2 = "sub64 (mul64 (sub64 ?x2 ?x3) (sub64 ?y4 ?y3)) (mul64 (sub64 ?y2 ?y3) (sub64 ?x4 ?x3))"
  let ?d3 = "sub64 (mul64 (sub64 ?x3 ?x1) (sub64 ?y2 ?y1)) (mul64 (sub64 ?y3 ?y1) (sub64 ?x2 ?x1))"
  let ?d4 = "sub64 (mul64 (sub64 ?x4 ?x1) (sub64 ?y2 ?y1)) (mul64 (sub64 ?y4 ?y1) (sub64 ?x2 ?x1))"
  let ?p = "mul64 ?d1 ?d2" and ?q = "mul64 ?d3 ?d4"
  let ?guard = "node_id node1 = node_id node3 \<or> node_id node1 = node_id node4 \<or>
                node_id node2 = node_id node3 \<or> node_id node2 = node_id node4"
  have body: "doEdgesCross64 node1 node2 node3 node4 =
                (if ?guard then False else js_lt ?p (Finite 0) \<and> js_lt ?q (Finite 0))"
    by (simp only: doEdgesCross64_def Let_def)
  have main: "doEdgesCross64 node1 node2 node3 node4 \<longleftrightarrow> js_lt ?p (Finite 0) \<and> js_lt ?q (Finite 0)"
  proof (cases "js_lt ?p (Finite 0)")
    case True
    have "node_id node1 \<noteq> node_id node3"
    proof
      assume "node_id node1 = node_id node3"
      then have "node1 = node3" by (rule nodeMap_same_id [OF assms(1) assms(3)])
      then have "zeroOrNaN ?d1" by (simp only: det64_first_endpoint)
      from zeroOrNaN_product64_left [OF this] True show False by blast
    qed
    moreover have "node_id node1 \<noteq> node_id node4"
    proof
      assume "node_id node1 = node_id node4"
      then have "node1 = node4" by (rule nodeMap_same_id [OF assms(1) assms(4)])
      then have "zeroOrNaN ?d1" by (simp only: det64_second_endpoint)
      from zeroOrNaN_product64_left [OF this] True show False by blast
    qed
    moreover have "node_id node2 \<noteq> node_id node3"
    proof
      assume "node_id node2 = node_id node3"
      then have "node2 = node3" by (rule nodeMap_same_id [OF assms(2) assms(3)])
      then have "zeroOrNaN ?d2" by (simp only: det64_first_endpoint)
      from zeroOrNaN_product64_right [OF this] True show False by blast
    qed
    moreover have "node_id node2 \<noteq> node_id node4"
    proof
      assume "node_id node2 = node_id node4"
      then have "node2 = node4" by (rule nodeMap_same_id [OF assms(2) assms(4)])
      then have "zeroOrNaN ?d2" by (simp only: det64_second_endpoint)
      from zeroOrNaN_product64_right [OF this] True show False by blast
    qed
    ultimately show ?thesis by (simp only: body) simp
  next
    case False
    then show ?thesis by (simp only: body) simp
  qed
  have signs: "doEdgesCross64 node1 node2 node3 node4 \<longleftrightarrow>
                 oppositeSides ?d1 ?d2 \<and> oppositeSides ?d3 ?d4 \<and> ?p \<noteq> Finite 0 \<and> ?q \<noteq> Finite 0"
    unfolding main by (simp only: mul64_negative_iff) blast
  have zero: "\<not> doEdgesCross64 node1 node2 node3 node4" if "zeroOrNaN ?p \<or> zeroOrNaN ?q"
    using that main zeroOrNaN_not_negative by blast
  from main signs zero show ?thesis
    unfolding Let_def by blast
qed

theorem doEdgesCross_iff_products_negative_witness:
  "nodeMap squareNodes ''A'' = Some (squareNodes ! 0) \<and>
   nodeMap squareNodes ''B'' = Some (squareNodes ! 1) \<and>
   nodeMap squareNodes ''C'' = Some (squareNodes ! 2) \<and>
   nodeMap squareNodes ''D'' = Some (squareNodes ! 3) \<and>
   doEdgesCross64 (squareNodes ! 0) (squareNodes ! 1) (squareNodes ! 2) (squareNodes ! 3) \<and>
   nodeMap apartNodes ''A'' = Some (apartNodes ! 0) \<and>
   nodeMap apartNodes ''B'' = Some (apartNodes ! 1) \<and>
   nodeMap apartNodes ''C'' = Some (apartNodes ! 2) \<and>
   nodeMap apartNodes ''D'' = Some (apartNodes ! 3) \<and>
   sub64 (mul64 (sub64 (Finite 0) (Finite (1 / 2))) (sub64 (Finite 2) (Finite 1)))
         (mul64 (sub64 (Finite 0) (Finite 1)) (sub64 (Finite (1 / 2)) (Finite (1 / 2))))
     = Finite (- (1 / 2)) \<and>
   sub64 (mul64 (sub64 (Finite 1) (Finite (1 / 2))) (sub64 (Finite 2) (Finite 1)))
         (mul64 (sub64 (Finite 0) (Finite 1)) (sub64 (Finite (1 / 2)) (Finite (1 / 2))))
     = Finite (1 / 2) \<and>
   sub64 (mul64 (sub64 (Finite (1 / 2)) (Finite 0)) (sub64 (Finite 0) (Finite 0)))
         (mul64 (sub64 (Finite 1) (Finite 0)) (sub64 (Finite 1) (Finite 0)))
     = Finite (- 1) \<and>
   sub64 (mul64 (sub64 (Finite (1 / 2)) (Finite 0)) (sub64 (Finite 0) (Finite 0)))
         (mul64 (sub64 (Finite 2) (Finite 0)) (sub64 (Finite 1) (Finite 0)))
     = Finite (- 2) \<and>
   \<not> doEdgesCross64 (apartNodes ! 0) (apartNodes ! 1) (apartNodes ! 2) (apartNodes ! 3)"
proof -
  note eval = Let_def mkNode_def sub64_def mul64_def pow2_def floor_minus_one
    fl64_grid [where e = "- 2"]
  have a: "nodeMap squareNodes ''A'' = Some (squareNodes ! 0)"
    and b: "nodeMap squareNodes ''B'' = Some (squareNodes ! 1)"
    and c: "nodeMap squareNodes ''C'' = Some (squareNodes ! 2)"
    and d: "nodeMap squareNodes ''D'' = Some (squareNodes ! 3)"
    by (simp_all add: nodeMap_def squareNodes_def mkNode_def)
  have a': "nodeMap apartNodes ''A'' = Some (apartNodes ! 0)"
    and b': "nodeMap apartNodes ''B'' = Some (apartNodes ! 1)"
    and c': "nodeMap apartNodes ''C'' = Some (apartNodes ! 2)"
    and d': "nodeMap apartNodes ''D'' = Some (apartNodes ! 3)"
    by (simp_all add: nodeMap_def apartNodes_def mkNode_def)
  have cross: "doEdgesCross64 (squareNodes ! 0) (squareNodes ! 1) (squareNodes ! 2) (squareNodes ! 3)"
    using doEdgesCross_iff_products_negative [OF a b c d]
    by (simp add: squareNodes_def eval)
  have apart: "\<not> doEdgesCross64 (apartNodes ! 0) (apartNodes ! 1) (apartNodes ! 2) (apartNodes ! 3)"
    using doEdgesCross_iff_products_negative [OF a' b' c' d']
    by (simp add: apartNodes_def eval)
  have dets:
    "sub64 (mul64 (sub64 (Finite 0) (Finite (1 / 2))) (sub64 (Finite 2) (Finite 1)))
           (mul64 (sub64 (Finite 0) (Finite 1)) (sub64 (Finite (1 / 2)) (Finite (1 / 2))))
       = Finite (- (1 / 2))"
    "sub64 (mul64 (sub64 (Finite 1) (Finite (1 / 2))) (sub64 (Finite 2) (Finite 1)))
           (mul64 (sub64 (Finite 0) (Finite 1)) (sub64 (Finite (1 / 2)) (Finite (1 / 2))))
       = Finite (1 / 2)"
    "sub64 (mul64 (sub64 (Finite (1 / 2)) (Finite 0)) (sub64 (Finite 0) (Finite 0)))
           (mul64 (sub64 (Finite 1) (Finite 0)) (sub64 (Finite 1) (Finite 0)))
       = Finite (- 1)"
    "sub64 (mul64 (sub64 (Finite (1 / 2)) (Finite 0)) (sub64 (Finite 0) (Finite 0)))
           (mul64 (sub64 (Finite 2) (Finite 0)) (sub64 (Finite 1) (Finite 0)))
       = Finite (- 2)"
    by (simp_all add: eval)
  from a b c d cross a' b' c' d' dets apart show ?thesis
    by (intro conjI)
qed

text \<open>
  The test is on computed values, not on the position of the segments, and the two differ
  both ways. On the diagonals of the square of side \<open>2^-300\<close> every determinant is computed
  without error, \<open>-2^-600\<close> or \<open>2^-600\<close>, of opposite signs in each pair, but the product
  \<open>-2^-1200\<close> of a pair is below the smallest double and rounds to zero: the segments
  straddle each other and no crossing is reported. In \<open>teeNodes\<close> the vertex \<open>B\<close> lies on
  the segment \<open>C\<close>--\<open>D\<close>, so that its determinant is exactly \<open>0\<close>; the difference
  \<open>x2 - x3\<close> is a tie and rounds to \<open>2^53 / 2^56\<close>, the computed determinant is negative,
  and a crossing is reported for segments that only touch.
\<close>

theorem doEdgesCross_straddle_counterexample:
  "nodeMap tinySquareNodes ''A'' = Some (tinySquareNodes ! 0) \<and>
   nodeMap tinySquareNodes ''B'' = Some (tinySquareNodes ! 1) \<and>
   nodeMap tinySquareNodes ''C'' = Some (tinySquareNodes ! 2) \<and>
   nodeMap tinySquareNodes ''D'' = Some (tinySquareNodes ! 3) \<and>
   fl64 (1 / 2 ^ 300) = Finite (1 / 2 ^ 300) \<and>
   det1 (tinySquareNodes ! 0) (tinySquareNodes ! 1) (tinySquareNodes ! 2) (tinySquareNodes ! 3)
     = Finite (- (1 / 2 ^ 600)) \<and>
   det2 (tinySquareNodes ! 0) (tinySquareNodes ! 1) (tinySquareNodes ! 2) (tinySquareNodes ! 3)
     = Finite (1 / 2 ^ 600) \<and>
   det3 (tinySquareNodes ! 0) (tinySquareNodes ! 1) (tinySquareNodes ! 2) (tinySquareNodes ! 3)
     = Finite (1 / 2 ^ 600) \<and>
   det4 (tinySquareNodes ! 0) (tinySquareNodes ! 1) (tinySquareNodes ! 2) (tinySquareNodes ! 3)
     = Finite (- (1 / 2 ^ 600)) \<and>
   sub64 (mul64 (sub64 (node_x (tinySquareNodes ! 0)) (node_x (tinySquareNodes ! 2)))
                (sub64 (node_y (tinySquareNodes ! 3)) (node_y (tinySquareNodes ! 2))))
         (mul64 (sub64 (node_y (tinySquareNodes ! 0)) (node_y (tinySquareNodes ! 2)))
                (sub64 (node_x (tinySquareNodes ! 3)) (node_x (tinySquareNodes ! 2))))
     = Finite (- (1 / 2 ^ 600)) \<and>
   sub64 (mul64 (sub64 (node_x (tinySquareNodes ! 1)) (node_x (tinySquareNodes ! 2)))
                (sub64 (node_y (tinySquareNodes ! 3)) (node_y (tinySquareNodes ! 2))))
         (mul64 (sub64 (node_y (tinySquareNodes ! 1)) (node_y (tinySquareNodes ! 2)))
                (sub64 (node_x (tinySquareNodes ! 3)) (node_x (tinySquareNodes ! 2))))
     = Finite (1 / 2 ^ 600) \<and>
   mul64 (Finite (- (1 / 2 ^ 600))) (Finite (1 / 2 ^ 600)) = Finite 0 \<and>
   doEdgesCross (tinySquareNodes ! 0) (tinySquareNodes ! 1) (tinySquareNodes ! 2) (tinySquareNodes ! 3) \<and>
   \<not> doEdgesCross64 (tinySquareNodes ! 0) (tinySquareNodes ! 1) (tinySquareNodes ! 2) (tinySquareNodes ! 3) \<and>
   nodeMap teeNodes ''A'' = Some (teeNodes ! 0) \<and>
   nodeMap teeNodes ''B'' = Some (teeNodes ! 1) \<and>
   nodeMap teeNodes ''C'' = Some (teeNodes ! 2) \<and>
   nodeMap teeNodes ''D'' = Some (teeNodes ! 3) \<and>
   fl64 ((2 ^ 53 + 2) / 2 ^ 56) = Finite ((2 ^ 53 + 2) / 2 ^ 56) \<and>
   fl64 ((3 * 2 ^ 53 + 4) / 2 ^ 56) = Finite ((3 * 2 ^ 53 + 4) / 2 ^ 56) \<and>
   (2 ^ 53 + 2) / 2 ^ 56 = 1 / 2 ^ 56 + ((3 * 2 ^ 53 + 4) / 2 ^ 56 - 1 / 2 ^ 56) / (3 :: real) \<and>
   2 / 2 ^ 56 = 1 / 2 ^ 56 + (4 / 2 ^ 56 - 1 / 2 ^ 56) / (3 :: real) \<and>
   det2 (teeNodes ! 0) (teeNodes ! 1) (teeNodes ! 2) (teeNodes ! 3) = Finite 0 \<and>
   sub64 (Finite ((2 ^ 53 + 2) / 2 ^ 56)) (Finite (1 / 2 ^ 56)) = Finite (2 ^ 53 / 2 ^ 56) \<and>
   sub64 (mul64 (sub64 (node_x (teeNodes ! 1)) (node_x (teeNodes ! 2)))
                (sub64 (node_y (teeNodes ! 3)) (node_y (teeNodes ! 2))))
         (mul64 (sub64 (node_y (teeNodes ! 1)) (node_y (teeNodes ! 2)))
                (sub64 (node_x (teeNodes ! 3)) (node_x (teeNodes ! 2))))
     = Finite (- (4 / 2 ^ 112)) \<and>
   \<not> doEdgesCross (teeNodes ! 0) (teeNodes ! 1) (teeNodes ! 2) (teeNodes ! 3) \<and>
   doEdgesCross64 (teeNodes ! 0) (teeNodes ! 1) (teeNodes ! 2) (teeNodes ! 3)"
proof -
  note tiny = tinySquareNodes_def Let_def mkNode_def sub64_def mul64_def pow2_def floor_minus_one
    fl64_grid [where e = "- 300"] fl64_grid [where e = "- 600"] fl64_underflow
  note tee = teeNodes_def Let_def mkNode_def sub64_def mul64_def pow2_def floor_minus_one
    roundEven_def
    fl64_grid [where e = "- 56"] fl64_grid [where e = "- 54"] fl64_grid [where e = "- 112"]
    fl64_grid [where e = "- 109"] fl64_grid [where e = "- 110"] fl64_grid [where e = "- 220"]
    fl64_grid [where e = "- 168"] fl64_round [where k = "- 3"] fl64_round [where k = "- 2"]
  have lookups:
    "nodeMap tinySquareNodes ''A'' = Some (tinySquareNodes ! 0)"
    "nodeMap tinySquareNodes ''B'' = Some (tinySquareNodes ! 1)"
    "nodeMap tinySquareNodes ''C'' = Some (tinySquareNodes ! 2)"
    "nodeMap tinySquareNodes ''D'' = Some (tinySquareNodes ! 3)"
    by (simp_all add: nodeMap_def tinySquareNodes_def mkNode_def)
  have doubles: "fl64 (1 / 2 ^ 300) = Finite (1 / 2 ^ 300)"
    by (simp add: tiny)
  have dets:
    "det1 (tinySquareNodes ! 0) (tinySquareNodes ! 1) (tinySquareNodes ! 2) (tinySquareNodes ! 3)
       = Finite (- (1 / 2 ^ 600))"
    "det2 (tinySquareNodes ! 0) (tinySquareNodes ! 1) (tinySquareNodes ! 2) (tinySquareNodes ! 3)
       = Finite (1 / 2 ^ 600)"
    "det3 (tinySquareNodes ! 0) (tinySquareNodes ! 1) (tinySquareNodes ! 2) (tinySquareNodes ! 3)
       = Finite (1 / 2 ^ 600)"
    "det4 (tinySquareNodes ! 0) (tinySquareNodes ! 1) (tinySquareNodes ! 2) (tinySquareNodes ! 3)
       = Finite (- (1 / 2 ^ 600))"
    by (simp_all add: det1_def det2_def det3_def det4_def tinySquareNodes_def mkNode_def)
  have computed:
    "sub64 (mul64 (sub64 (node_x (tinySquareNodes ! 0)) (node_x (tinySquareNodes ! 2)))
                  (sub64 (node_y (tinySquareNodes ! 3)) (node_y (tinySquareNodes ! 2))))
           (mul64 (sub64 (node_y (tinySquareNodes ! 0)) (node_y (tinySquareNodes ! 2)))
                  (sub64 (node_x (tinySquareNodes ! 3)) (node_x (tinySquareNodes ! 2))))
       = Finite (- (1 / 2 ^ 600))"
    "sub64 (mul64 (sub64 (node_x (tinySquareNodes ! 1)) (node_x (tinySquareNodes ! 2)))
                  (sub64 (node_y (tinySquareNodes ! 3)) (node_y (tinySquareNodes ! 2))))
           (mul64 (sub64 (node_y (tinySquareNodes ! 1)) (node_y (tinySquareNodes ! 2)))
                  (sub64 (node_x (tinySquareNodes ! 3)) (node_x (tinySquareNodes ! 2))))
       = Finite (1 / 2 ^ 600)"
    by (simp_all add: tiny)
  have under: "mul64 (Finite (- (1 / 2 ^ 600))) (Finite (1 / 2 ^ 600)) = Finite 0"
    by (simp add: tiny)
  have exact: "doEdgesCross (tinySquareNodes ! 0) (tinySquareNodes ! 1) (tinySquareNodes ! 2) (tinySquareNodes ! 3)"
    by (simp add: doEdgesCross_def det1_def det2_def det3_def det4_def tinySquareNodes_def mkNode_def)
  have missed: "\<not> doEdgesCross64 (tinySquareNodes ! 0) (tinySquareNodes ! 1) (tinySquareNodes ! 2) (tinySquareNodes ! 3)"
    by (simp add: doEdgesCross64_def tiny)
  have lookups':
    "nodeMap teeNodes ''A'' = Some (teeNodes ! 0)"
    "nodeMap teeNodes ''B'' = Some (teeNodes ! 1)"
    "nodeMap teeNodes ''C'' = Some (teeNodes ! 2)"
    "nodeMap teeNodes ''D'' = Some (teeNodes ! 3)"
    by (simp_all add: nodeMap_def teeNodes_def mkNode_def)
  have doubles':
    "fl64 ((2 ^ 53 + 2) / 2 ^ 56) = Finite ((2 ^ 53 + 2) / 2 ^ 56)"
    "fl64 ((3 * 2 ^ 53 + 4) / 2 ^ 56) = Finite ((3 * 2 ^ 53 + 4) / 2 ^ 56)"
    by (simp_all add: tee)
  have between:
    "(2 ^ 53 + 2) / 2 ^ 56 = 1 / 2 ^ 56 + ((3 * 2 ^ 53 + 4) / 2 ^ 56 - 1 / 2 ^ 56) / (3 :: real)"
    "2 / 2 ^ 56 = 1 / 2 ^ 56 + (4 / 2 ^ 56 - 1 / 2 ^ 56) / (3 :: real)"
    by simp_all
  have touching: "det2 (teeNodes ! 0) (teeNodes ! 1) (teeNodes ! 2) (teeNodes ! 3) = Finite 0"
    by (simp add: det2_def teeNodes_def mkNode_def)
  have tie: "sub64 (Finite ((2 ^ 53 + 2) / 2 ^ 56)) (Finite (1 / 2 ^ 56)) = Finite (2 ^ 53 / 2 ^ 56)"
    by (simp add: tee)
  have computed':
    "sub64 (mul64 (sub64 (node_x (teeNodes ! 1)) (node_x (teeNodes ! 2)))
                  (sub64 (node_y (teeNodes ! 3)) (node_y (teeNodes ! 2))))
           (mul64 (sub64 (node_y (teeNodes ! 1)) (node_y (teeNodes ! 2)))
                  (sub64 (node_x (teeNodes ! 3)) (node_x (teeNodes ! 2))))
       = Finite (- (4 / 2 ^ 112))"
    by (simp add: tee)
  have exact': "\<not> doEdgesCross (teeNodes ! 0) (teeNodes ! 1) (teeNodes ! 2) (teeNodes ! 3)"
    by (simp add: doEdgesCross_def det1_def det2_def det3_def det4_def teeNodes_def mkNode_def)
  have counted: "doEdgesCross64 (teeNodes ! 0) (teeNodes ! 1) (teeNodes ! 2) (teeNodes ! 3)"
    by (simp add: doEdgesCross64_def tee)
  from lookups doubles dets computed under exact missed
    lookups' doubles' between touching tie computed' exact' counted
  show ?thesis by (intro conjI)
qed

section \<open>Symmetry of the crossing test and the crossing count\<close>

lemma doEdgesCross_sym: "doEdgesCross node1 node2 node3 node4 = doEdgesCross node3 node4 node1 node2"
  by (auto simp: doEdgesCross_def det1_def det2_def det3_def det4_def)

lemma edgesCross_sym: "edgesCross m e1 e2 = edgesCross m e2 e1"
  using doEdgesCross_sym by (auto simp: edgesCross_def split: option.splits)

lemma edgesCross_shared: "shareEndpoint e1 e2 \<Longrightarrow> \<not> edgesCross m e1 e2"
  by (auto simp: shareEndpoint_def edgesCross_def doEdgesCross_def split: option.splits)

lemma doEdgesCross_loop_first: "\<not> doEdgesCross node1 node1 node3 node4"
proof -
  have "det1 node1 node1 node3 node4 = det2 node1 node1 node3 node4"
    by (simp add: det1_def det2_def)
  then show ?thesis
    by (simp add: doEdgesCross_def js_mul_self_not_negative)
qed

lemma doEdgesCross_loop_second: "\<not> doEdgesCross node1 node2 node3 node3"
  using doEdgesCross_loop_first [of node3 node1 node2] doEdgesCross_sym by blast

lemma edgesCross_loop:
  "source e1 = target e1 \<or> source e2 = target e2 \<Longrightarrow> \<not> edgesCross m e1 e2"
  by (auto simp: edgesCross_def doEdgesCross_loop_first doEdgesCross_loop_second
      split: option.splits)

lemma fold_count: "fold (\<lambda>j c. if P j then c + 1 else c) xs (c0::nat) = c0 + length (filter P xs)"
  by (induction xs arbitrary: c0) simp_all

lemma fold_count_rows:
  "fold (\<lambda>i c. fold (\<lambda>j c. if P i j then c + 1 else c) (row i) c) xs (c0::nat) =
     c0 + sum_list (map (\<lambda>i. length (filter (P i) (row i))) xs)"
  by (induction xs arbitrary: c0) (simp_all add: fold_count)

lemma length_filter_upt: "length (filter P [a ..< b]) = card {j. a \<le> j \<and> j < b \<and> P j}"
proof -
  have "length (filter P [a ..< b]) = card (set (filter P [a ..< b]))"
    by (rule distinct_card [symmetric]) simp
  also have "set (filter P [a ..< b]) = {j. a \<le> j \<and> j < b \<and> P j}"
    by auto
  finally show ?thesis .
qed

lemma card_pairs:
  "card {(i, j). i < j \<and> j < n \<and> P i j} =
     sum_list (map (\<lambda>i. card {j. Suc i \<le> j \<and> j < n \<and> P i j}) [0 ..< n])"
proof -
  have "{(i, j). i < j \<and> j < n \<and> P i j} =
        (SIGMA i : {0 ..< n}. {j. Suc i \<le> j \<and> j < n \<and> P i j})"
    by auto
  moreover have "card (SIGMA i : {0 ..< n}. {j. Suc i \<le> j \<and> j < n \<and> P i j}) =
        (\<Sum>i \<in> {0 ..< n}. card {j. Suc i \<le> j \<and> j < n \<and> P i j})"
    by (rule card_SigmaI) simp_all
  ultimately show ?thesis
    by (simp add: interv_sum_list_conv_sum_set_nat)
qed

lemma calculateEdgeCrossings_card:
  "calculateEdgeCrossings ns es =
     card {(i, j). i < j \<and> j < length es \<and> edgesCross (nodeMap ns) (es ! i) (es ! j)}"
  by (simp add: calculateEdgeCrossings_def fold_count_rows length_filter_upt card_pairs)

text \<open>
  C4. The crossing test is symmetric in its two edges; two edges that share an endpoint
  identifier do not cross, so an edge does not cross itself, and a self-loop crosses
  nothing; and \<open>calculateEdgeCrossings\<close> is the number of index pairs \<open>i < j\<close> whose edges
  cross: every unordered pair of distinct indices is counted once.
\<close>

theorem crossing_symmetry_and_count:
  "edgesCross (nodeMap ns) e1 e2 = edgesCross (nodeMap ns) e2 e1 \<and>
   doEdgesCross node1 node2 node3 node4 = doEdgesCross node3 node4 node1 node2 \<and>
   (shareEndpoint e1 e2 \<longrightarrow> \<not> edgesCross (nodeMap ns) e1 e2) \<and>
   \<not> edgesCross (nodeMap ns) e1 e1 \<and>
   (source e1 = target e1 \<or> source e2 = target e2 \<longrightarrow> \<not> edgesCross (nodeMap ns) e1 e2) \<and>
   calculateEdgeCrossings ns es =
     card {(i, j). i < j \<and> j < length es \<and> edgesCross (nodeMap ns) (es ! i) (es ! j)}"
proof -
  have "\<not> edgesCross (nodeMap ns) e1 e1"
    by (rule edgesCross_shared) (simp add: shareEndpoint_def)
  then show ?thesis
    using edgesCross_sym [of "nodeMap ns" e1 e2] doEdgesCross_sym [of node1 node2 node3 node4]
      edgesCross_shared [of e1 e2 "nodeMap ns"] edgesCross_loop [of e1 e2 "nodeMap ns"]
      calculateEdgeCrossings_card [of ns es]
    by blast
qed

theorem crossing_symmetry_and_count_witness:
  "shareEndpoint (mkEdge ''A'' ''B'') (mkEdge ''B'' ''C'') \<and>
   \<not> edgesCross (nodeMap squareNodes) (mkEdge ''A'' ''B'') (mkEdge ''B'' ''C'') \<and>
   source (mkEdge ''D'' ''D'') = target (mkEdge ''D'' ''D'') \<and>
   \<not> edgesCross (nodeMap squareNodes) (mkEdge ''D'' ''D'') (mkEdge ''A'' ''B'') \<and>
   edgesCross (nodeMap squareNodes) (mkEdge ''A'' ''B'') (mkEdge ''C'' ''D'') \<and>
   edgesCross (nodeMap squareNodes) (mkEdge ''C'' ''D'') (mkEdge ''A'' ''B'') \<and>
   calculateEdgeCrossings squareNodes [mkEdge ''A'' ''B'', mkEdge ''C'' ''D''] = 1"
proof -
  have share: "shareEndpoint (mkEdge ''A'' ''B'') (mkEdge ''B'' ''C'')"
    by (simp add: shareEndpoint_def mkEdge_def)
  have loop: "source (mkEdge ''D'' ''D'') = target (mkEdge ''D'' ''D'')"
    by (simp add: mkEdge_def)
  have cross: "edgesCross (nodeMap squareNodes) (mkEdge ''A'' ''B'') (mkEdge ''C'' ''D'')"
    by (simp add: edgesCross_def nodeMap_def squareNodes_def mkNode_def mkEdge_def
        doEdgesCross_def det1_def det2_def det3_def det4_def)
  have count: "calculateEdgeCrossings squareNodes [mkEdge ''A'' ''B'', mkEdge ''C'' ''D''] = 1"
    using cross by (simp add: calculateEdgeCrossings_def upt_rec)
  from crossing_symmetry_and_count
         [of squareNodes "mkEdge ''A'' ''B''" "mkEdge ''B'' ''C''"]
       crossing_symmetry_and_count
         [of squareNodes "mkEdge ''D'' ''D''" "mkEdge ''A'' ''B''"]
       crossing_symmetry_and_count
         [of squareNodes "mkEdge ''A'' ''B''" "mkEdge ''C'' ''D''"]
       share loop cross count
  show ?thesis by blast
qed

section \<open>The average connected-pair distance\<close>





lemma js_add_commute: "js_add a b = js_add b a"
  by (cases a; cases b) simp_all
















section \<open>The minimum pairwise distance\<close>





















section \<open>The tick loop\<close>

lemma tickLoop_finite:
  "tickLoop tk (Finite r) (Finite (real k)) s = Some ((tk ^^ (nat \<lceil>r\<rceil> - k)) s)"
proof (induction "nat \<lceil>r\<rceil> - k" arbitrary: k s)
  case 0
  then have "\<not> real k < r" by linarith
  then show ?case using 0 by (subst tickLoop.simps) simp
next
  case (Suc d)
  then have lt: "real k < r" by linarith
  from Suc have d: "d = nat \<lceil>r\<rceil> - Suc k" by simp
  have "tickLoop tk (Finite r) (Finite (real k)) s =
        tickLoop tk (Finite r) (Finite (real (Suc k))) (tk s)"
    using lt by (subst tickLoop.simps) (simp add: add.commute)
  also have "\<dots> = Some ((tk ^^ (nat \<lceil>r\<rceil> - Suc k)) (tk s))"
    by (rule Suc.hyps(1) [OF d])
  also have "(tk ^^ (nat \<lceil>r\<rceil> - Suc k)) (tk s) = (tk ^^ (nat \<lceil>r\<rceil> - k)) s"
    using Suc.hyps(2) [symmetric] d by (simp add: funpow_swap1)
  finally show ?case .
qed

lemma tickLoop_no_round: "\<not> js_lt i n \<Longrightarrow> tickLoop tk n i s = Some s"
  by (subst tickLoop.simps) simp

text \<open>If the loop ends, it has applied \<open>tick\<close> some number of times.\<close>

lemma tickLoop_funpow:
  assumes "tickLoop tk n i s = Some s'"
  shows "\<exists>k. s' = (tk ^^ k) s"
proof (rule tickLoop.raw_induct [where P = "\<lambda>tk n i s s'. \<exists>k. s' = (tk ^^ k) s", OF _ assms])
  fix f and tk :: "'a \<Rightarrow> 'a" and n i s s'
  assume IH: "\<And>tk n i s s'. f tk n i s = Some s' \<Longrightarrow> \<exists>k. s' = (tk ^^ k) s"
    and eq: "(if js_lt i n then f tk n (js_add i (Finite 1)) (tk s) else Some s) = Some s'"
  show "\<exists>k. s' = (tk ^^ k) s"
  proof (cases "js_lt i n")
    case True
    with eq have "f tk n (js_add i (Finite 1)) (tk s) = Some s'" by simp
    from IH [OF this] obtain k where "s' = (tk ^^ k) (tk s)" ..
    then have "s' = (tk ^^ Suc k) s" by (simp add: funpow_swap1)
    then show ?thesis ..
  next
    case False
    with eq have "s' = (tk ^^ 0) s" by simp
    then show ?thesis ..
  qed
qed

text \<open>With the bound \<open>Infinity\<close> the loop does not end.\<close>

lemma tickLoop_PosInf_aux:
  assumes "tickLoop tk n i s = Some s'"
  shows "\<not> (n = PosInf \<and> isFinite i)"
proof (rule tickLoop.raw_induct [where P = "\<lambda>tk n i s s'. \<not> (n = PosInf \<and> isFinite i)", OF _ assms])
  fix f and tk :: "'a \<Rightarrow> 'a" and n i s s'
  assume IH: "\<And>tk n i s s'. f tk n i s = Some s' \<Longrightarrow> \<not> (n = PosInf \<and> isFinite i)"
    and eq: "(if js_lt i n then f tk n (js_add i (Finite 1)) (tk s) else Some s) = Some s'"
  show "\<not> (n = PosInf \<and> isFinite i)"
  proof
    assume "n = PosInf \<and> isFinite i"
    then obtain a where a: "n = PosInf" "i = Finite a" by (cases i) auto
    with eq have "f tk PosInf (Finite (a + 1)) (tk s) = Some s'" by simp
    from IH [OF this] show False by simp
  qed
qed

lemma tickLoop_PosInf: "tickLoop tk PosInf (Finite a) s = None"
  using tickLoop_PosInf_aux [of tk PosInf "Finite a" s]
  by (cases "tickLoop tk PosInf (Finite a) s") auto

lemma tickLoop_rounds:
  "tickLoop tk n (Finite 0) s = map_option (\<lambda>k. (tk ^^ k) s) (rounds n)"
proof (cases n)
  case (Finite r)
  with tickLoop_finite [of tk r 0 s] show ?thesis by simp
next
  case PosInf
  then show ?thesis by (simp add: tickLoop_PosInf)
next
  case NegInf
  then show ?thesis by (simp add: tickLoop_no_round)
next
  case NaN
  then show ?thesis by (simp add: tickLoop_no_round)
qed

section \<open>Rescaling and clamping\<close>

lemma clamp01_NaN: "clamp01 NaN = NaN"
  by (simp add: clamp01_def Math_min_def Math_max_def)



lemma clamp01_id: "inUnit v \<Longrightarrow> clamp01 v = v"
  by (cases v) (auto simp: clamp01_def Math_min_def Math_max_def inUnit_def js_le_def)

lemma clamp01_Finite:
  "clamp01 (Finite a) = Finite (if a < 0 then 0 else if 1 < a then 1 else a)"
  by (simp add: clamp01_def Math_min_def Math_max_def)


section \<open>What \<open>optimizeLayout\<close> returns\<close>

lemma optimizeLayout_throws_iff:
  "optimizeLayout lib options g = Some (Inl e) \<longleftrightarrow>
     forceSimulation lib options (map (scaleUp options) (nodes g)) (map copyEdge (edges g)) = Inl e"
  by (auto simp: optimizeLayout_def Let_def split: sum.splits option.splits)

lemma optimizeLayout_rounds:
  assumes "forceSimulation lib options (map (scaleUp options) (nodes g)) (map copyEdge (edges g)) = Inr s"
  shows "optimizeLayout lib options g =
           map_option (\<lambda>k. Inr (map (scaleDown options) (sim_nodes lib ((tick lib ^^ k) s))))
             (rounds (iterations options))"
  using assms by (cases "rounds (iterations options)") (simp_all add: optimizeLayout_def tickLoop_rounds)

lemma optimizeLayout_returns:
  assumes "forceSimulation lib options (map (scaleUp options) (nodes g)) (map copyEdge (edges g)) = Inr s"
    and "iterations options = Finite r"
  shows "optimizeLayout lib options g =
           Some (Inr (map (scaleDown options) (sim_nodes lib ((tick lib ^^ nat \<lceil>r\<rceil>) s))))"
  by (simp add: optimizeLayout_rounds [OF assms(1)] assms(2))


lemma driftLibrary_construct:
  "\<forall>l \<in> set links. resolvable ns l \<Longrightarrow> forceSimulation driftLibrary options ns links = Inr ns"
proof -
  assume "\<forall>l \<in> set links. resolvable ns l"
  then have "find (\<lambda>l. \<not> resolvable ns l) links = None"
    by (simp add: find_None_iff)
  then show ?thesis by (simp add: driftLibrary_def)
qed

lemma driftLibrary_construct_Nil [simp]: "forceSimulation driftLibrary options ns [] = Inr ns"
  by (simp add: driftLibrary_construct)


lemma driftLibrary_nodes [simp]: "sim_nodes driftLibrary ns = ns"
  by (simp add: driftLibrary_def)

lemma driftLibrary_tick [simp]:
  "tick driftLibrary ns = map (\<lambda>node. node\<lparr> node_x := js_add (node_x node) (Finite 1) \<rparr>) ns"
  by (simp add: driftLibrary_def)

lemma constructor_workspace [simp]:
  "width (constructor (workspace w h n)) = w"
  "height (constructor (workspace w h n)) = h"
  "iterations (constructor (workspace w h n)) = n"
  by (simp_all add: constructor_def workspace_def orDefault_def)




section \<open>Order and identity of the returned vertices\<close>







section \<open>Dangling edges\<close>

text \<open>
  C7. The claim is that an edge whose endpoint names no vertex is skipped silently by
  \<open>optimizeLayout\<close>. The two metrics that look edges up do skip it: on a graph with the
  single vertex \<open>A\<close> and the single edge \<open>A\<close>--\<open>Z\<close> the average distance is 0 and no
  crossing is counted. \<open>optimizeLayout\<close> has no such guard: it hands the edge to the link
  force as it is and catches nothing, so on the same graph the call ends with the error
  that the link force raises for the unknown identifier, and no vertex is returned.
\<close>

theorem optimizeLayout_dangling_edge_throws:
  "\<not> resolvable [mkNode ''A'' 0 0] (mkEdge ''A'' ''Z'') \<and>
   calculateAverageDistance [mkNode ''A'' 0 0] [mkEdge ''A'' ''Z''] = Finite 0 \<and>
   calculateEdgeCrossings [mkNode ''A'' 0 0] [mkEdge ''A'' ''Z'', mkEdge ''Z'' ''A''] = 0 \<and>
   optimizeLayout driftLibrary (constructor (workspace (Finite 800) (Finite 600) (Finite 300)))
     \<lparr> nodes = [mkNode ''A'' 0 0], edges = [mkEdge ''A'' ''Z''] \<rparr>
     = Some (Inl (LibraryError ''node not found: Z''))"
proof -
  have "\<not> resolvable [mkNode ''A'' 0 0] (mkEdge ''A'' ''Z'')"
    by (simp add: resolvable_def mkNode_def mkEdge_def)
  moreover have "calculateAverageDistance [mkNode ''A'' 0 0] [mkEdge ''A'' ''Z''] = Finite 0"
    by (simp add: calculateAverageDistance_def averageStep_def nodeMap_def mkNode_def mkEdge_def)
  moreover have "calculateEdgeCrossings [mkNode ''A'' 0 0] [mkEdge ''A'' ''Z'', mkEdge ''Z'' ''A''] = 0"
    by (simp add: calculateEdgeCrossings_def edgesCross_def nodeMap_def mkNode_def mkEdge_def upt_rec)
  moreover have "optimizeLayout driftLibrary (constructor (workspace (Finite 800) (Finite 600) (Finite 300)))
      \<lparr> nodes = [mkNode ''A'' 0 0], edges = [mkEdge ''A'' ''Z''] \<rparr>
      = Some (Inl (LibraryError ''node not found: Z''))"
    by (simp add: optimizeLayout_def driftLibrary_def resolvable_def scaleUp_def copyEdge_def
        mkNode_def mkEdge_def)
  ultimately show ?thesis by blast
qed

section \<open>No validation of the workspace\<close>

text \<open>
  C8, as amended. Neither the constructor nor \<open>optimizeLayout\<close> validates the workspace:
  the constructor stores the width and height it is given, whatever they are;
  \<open>optimizeLayout\<close> raises no error of its own (it fails exactly when the library's
  construction throws, with that error) and otherwise, for a finite iteration count of at
  most \<open>2^53\<close>, runs the ticks and returns the rescaled nodes, whatever the width and
  height are, zero and negative values included.
\<close>

theorem optimizeLayout_no_validation:
  "(opt_width p = Some w \<longrightarrow> width (constructor p) = w) \<and>
   (opt_height p = Some h \<longrightarrow> height (constructor p) = h) \<and>
   (optimizeLayout lib options g = Some (Inl e) \<longleftrightarrow>
      forceSimulation lib options (map (scaleUp options) (nodes g)) (map copyEdge (edges g)) = Inl e) \<and>
   (forceSimulation lib options (map (scaleUp options) (nodes g)) (map copyEdge (edges g)) = Inr s \<and>
    iterations options = Finite r \<and> r \<le> 2 ^ 53 \<longrightarrow>
      optimizeLayout lib options g =
        Some (Inr (map (scaleDown options) (sim_nodes lib ((tick lib ^^ nat \<lceil>r\<rceil>) s)))))"
proof -
  have "width (constructor p) = w" if "opt_width p = Some w"
    using that by (simp add: constructor_def orDefault_def)
  moreover have "height (constructor p) = h" if "opt_height p = Some h"
    using that by (simp add: constructor_def orDefault_def)
  ultimately show ?thesis
    using optimizeLayout_throws_iff [of lib options g e] optimizeLayout_returns [of lib options g s r]
    by blast
qed

theorem optimizeLayout_no_validation_witness:
  "opt_width (workspace (Finite (- 1)) (Finite 0) (Finite 2)) = Some (Finite (- 1)) \<and>
   opt_height (workspace (Finite (- 1)) (Finite 0) (Finite 2)) = Some (Finite 0) \<and>
   forceSimulation driftLibrary (constructor (workspace (Finite (- 1)) (Finite 0) (Finite 2)))
     (map (scaleUp (constructor (workspace (Finite (- 1)) (Finite 0) (Finite 2)))) [mkNode ''A'' (1/2) (1/2)])
     (map copyEdge []) = Inr [mkNode ''A'' (- 1/2) 0] \<and>
   iterations (constructor (workspace (Finite (- 1)) (Finite 0) (Finite 2))) = Finite 2 \<and>
   (2::real) \<le> 2 ^ 53 \<and>
   width (constructor (workspace (Finite (- 1)) (Finite 0) (Finite 2))) = Finite (- 1) \<and>
   height (constructor (workspace (Finite (- 1)) (Finite 0) (Finite 2))) = Finite 0 \<and>
   optimizeLayout driftLibrary (constructor (workspace (Finite (- 1)) (Finite 0) (Finite 2)))
     \<lparr> nodes = [mkNode ''A'' (1/2) (1/2)], edges = [] \<rparr>
     = Some (Inr [\<lparr> node_id = ''A'', node_x = Finite 0, node_y = NaN \<rparr>])"
proof -
  let ?p = "workspace (Finite (- 1)) (Finite 0) (Finite 2)"
  let ?o = "constructor ?p"
  let ?g = "\<lparr> nodes = [mkNode ''A'' (1/2) (1/2)], edges = [] \<rparr>"
  have c: "forceSimulation driftLibrary ?o (map (scaleUp ?o) (nodes ?g)) (map copyEdge (edges ?g)) =
             Inr [mkNode ''A'' (- 1/2) 0]"
    by (simp add: scaleUp_def mkNode_def)
  have i: "iterations ?o = Finite 2" by simp
  have le: "(2::real) \<le> 2 ^ 53" by simp
  have ow: "opt_width ?p = Some (Finite (- 1))" and oh: "opt_height ?p = Some (Finite 0)"
    by (simp_all add: workspace_def)
  have t: "(tick driftLibrary ^^ nat \<lceil>2::real\<rceil>) [mkNode ''A'' (- 1/2) 0] = [mkNode ''A'' (3/2) 0]"
    by (simp add: eval_nat_numeral mkNode_def)
  note inst = optimizeLayout_no_validation
    [of ?p "Finite (- 1)" "Finite 0" driftLibrary ?o ?g _ "[mkNode ''A'' (- 1/2) 0]" 2]
  from inst ow have w: "width ?o = Finite (- 1)" by blast
  from inst oh have h: "height ?o = Finite 0" by blast
  from inst c i le
  have "optimizeLayout driftLibrary ?o ?g = Some (Inr (map (scaleDown ?o) [mkNode ''A'' (3/2) 0]))"
    by (simp only: t driftLibrary_nodes)
  then have run: "optimizeLayout driftLibrary ?o ?g =
      Some (Inr [\<lparr> node_id = ''A'', node_x = Finite 0, node_y = NaN \<rparr>])"
    by (simp add: scaleDown_def mkNode_def clamp01_Finite clamp01_NaN)
  from run c i le w h ow oh show ?thesis by simp
qed

theorem optimizeLayout_no_validation_counterexample:
  "width (constructor (workspace (Finite (- 1)) (Finite 0) (Finite 0))) = Finite (- 1) \<and>
   height (constructor (workspace (Finite (- 1)) (Finite 0) (Finite 0))) = Finite 0 \<and>
   optimizeLayout driftLibrary (constructor (workspace (Finite (- 1)) (Finite 0) (Finite 0)))
     \<lparr> nodes = [mkNode ''A'' (1/2) (1/2)], edges = [] \<rparr>
     = Some (Inr [\<lparr> node_id = ''A'', node_x = Finite (1/2), node_y = NaN \<rparr>])"
proof -
  let ?o = "constructor (workspace (Finite (- 1)) (Finite 0) (Finite 0))"
  let ?g = "\<lparr> nodes = [mkNode ''A'' (1/2) (1/2)], edges = [] \<rparr>"
  have c: "forceSimulation driftLibrary ?o (map (scaleUp ?o) (nodes ?g)) (map copyEdge (edges ?g)) =
             Inr [mkNode ''A'' (- 1/2) 0]"
    by (simp add: scaleUp_def mkNode_def)
  have i: "iterations ?o = Finite 0" by simp
  have "optimizeLayout driftLibrary ?o ?g = Some (Inr (map (scaleDown ?o) [mkNode ''A'' (- 1/2) 0]))"
    using optimizeLayout_returns [OF c i] by simp
  then show ?thesis
    by (simp add: scaleDown_def mkNode_def clamp01_Finite clamp01_NaN)
qed

section \<open>Zero iterations\<close>

lemma scaleDown_scaleUp:
  assumes "width options = Finite w" "w \<noteq> 0" "height options = Finite h" "h \<noteq> 0" "finiteNode node"
  shows "scaleDown options (scaleUp options node) =
           \<lparr> node_id = node_id node, node_x = clamp01 (node_x node), node_y = clamp01 (node_y node) \<rparr>"
  using assms
  by (cases "node_x node"; cases "node_y node") (simp_all add: scaleDown_def scaleUp_def finiteNode_def)

lemma scaleUp_not_NaN:
  assumes "isFinite (width options)" "isFinite (height options)" "finiteNode node"
  shows "node_x (scaleUp options node) \<noteq> NaN \<and> node_y (scaleUp options node) \<noteq> NaN"
  using assms
  by (cases "node_x node"; cases "node_y node"; cases "width options"; cases "height options")
     (simp_all add: scaleUp_def finiteNode_def)

lemma resolvable_scaled:
  "resolvable (map (scaleUp options) ns) (copyEdge e) = resolvable ns e"
  by (simp add: resolvable_def copyEdge_def scaleUp_def image_image)

lemma clampNode_id:
  fixes node :: Node
  assumes "inUnit (node_x node)" "inUnit (node_y node)"
  shows "\<lparr> node_id = node_id node, node_x = clamp01 (node_x node), node_y = clamp01 (node_y node) \<rparr> = node"
  using assms by (simp add: clamp01_id)

lemma constructionKeepsNodes_driftLibrary: "constructionKeepsNodes driftLibrary"
  by (simp add: constructionKeepsNodes_def driftLibrary_construct)

lemma clamp01_realOf: "isFinite v \<Longrightarrow> clamp01 v = Finite (max 0 (min 1 (realOf v)))"
  by (cases v) (auto simp: clamp01_Finite)

text \<open>
  C10. Given that constructing a simulation does not move a node whose position is given,
  with zero iterations, positive width and height, resolvable edge endpoints and finite
  input coordinates \<open>optimizeLayout\<close> returns each vertex with
  \<open>x = Math.max(0, Math.min(1, (x * width) / width))\<close> and
  \<open>y = Math.max(0, Math.min(1, (y * height) / height))\<close>, which in exact arithmetic are
  the real numbers \<open>max 0 (min 1 x)\<close> and \<open>max 0 (min 1 y)\<close>: a coordinate below 0 comes back
  as 0, one above 1 as 1, and one in between unchanged. For input positions in the unit
  square the result is the input list of vertices.
\<close>

theorem optimizeLayout_zero_iterations:
  assumes "constructionKeepsNodes lib"
    and "iterations options = Finite 0"
    and "width options = Finite w" and "0 < w"
    and "height options = Finite h" and "0 < h"
    and "\<forall>e \<in> set (edges g). resolvable (nodes g) e"
    and "\<forall>n \<in> set (nodes g). finiteNode n"
  shows "optimizeLayout lib options g =
           Some (Inr (map (\<lambda>n. \<lparr> node_id = node_id n,
                                  node_x = Math_max (Finite 0) (Math_min (Finite 1)
                                             (js_div (js_mul (node_x n) (width options)) (width options))),
                                  node_y = Math_max (Finite 0) (Math_min (Finite 1)
                                             (js_div (js_mul (node_y n) (height options)) (height options))) \<rparr>)
                          (nodes g))) \<and>
         optimizeLayout lib options g =
           Some (Inr (map (\<lambda>n. \<lparr> node_id = node_id n,
                                  node_x = Finite (max 0 (min 1 (realOf (node_x n)))),
                                  node_y = Finite (max 0 (min 1 (realOf (node_y n)))) \<rparr>) (nodes g))) \<and>
         ((\<forall>n \<in> set (nodes g). inUnit (node_x n) \<and> inUnit (node_y n)) \<longrightarrow>
            optimizeLayout lib options g = Some (Inr (nodes g)))"
proof -
  let ?ns = "map (scaleUp options) (nodes g)"
  let ?links = "map copyEdge (edges g)"
  have links: "\<forall>l \<in> set ?links. resolvable ?ns l"
    using assms(7) by (simp add: resolvable_scaled)
  have pos: "\<forall>n \<in> set ?ns. node_x n \<noteq> NaN \<and> node_y n \<noteq> NaN"
    using assms(3,5,8) by (simp add: scaleUp_not_NaN)
  from assms(1) links pos obtain s
    where c: "forceSimulation lib options ?ns ?links = Inr s" and s: "sim_nodes lib s = ?ns"
    unfolding constructionKeepsNodes_def by blast
  have run: "optimizeLayout lib options g = Some (Inr (map (scaleDown options) ?ns))"
    using optimizeLayout_returns [OF c assms(2)] by (simp add: s)
  have first: "map (scaleDown options) ?ns =
                 map (\<lambda>n. \<lparr> node_id = node_id n,
                             node_x = Math_max (Finite 0) (Math_min (Finite 1)
                                        (js_div (js_mul (node_x n) (width options)) (width options))),
                             node_y = Math_max (Finite 0) (Math_min (Finite 1)
                                        (js_div (js_mul (node_y n) (height options)) (height options))) \<rparr>)
                     (nodes g)"
    by (simp add: scaleDown_def scaleUp_def clamp01_def)
  have clamped: "map (scaleDown options) ?ns =
                  map (\<lambda>n. \<lparr> node_id = node_id n, node_x = clamp01 (node_x n),
                              node_y = clamp01 (node_y n) \<rparr>) (nodes g)"
    using assms(3-6,8) by (simp add: scaleDown_scaleUp)
  have second: "map (scaleDown options) ?ns =
                  map (\<lambda>n. \<lparr> node_id = node_id n,
                              node_x = Finite (max 0 (min 1 (realOf (node_x n)))),
                              node_y = Finite (max 0 (min 1 (realOf (node_y n)))) \<rparr>) (nodes g)"
    unfolding clamped using assms(8) by (intro map_cong refl) (simp add: finiteNode_def clamp01_realOf)
  have third: "map (scaleDown options) ?ns = nodes g"
    if "\<forall>n \<in> set (nodes g). inUnit (node_x n) \<and> inUnit (node_y n)"
  proof -
    have "map (\<lambda>n. \<lparr> node_id = node_id n, node_x = clamp01 (node_x n),
                      node_y = clamp01 (node_y n) \<rparr>) (nodes g) = map (\<lambda>n. n) (nodes g)"
      using that by (intro map_cong refl clampNode_id) auto
    with clamped show ?thesis by simp
  qed
  from run first second third show ?thesis by simp
qed

theorem optimizeLayout_zero_iterations_witness:
  "constructionKeepsNodes driftLibrary \<and>
   iterations (constructor (workspace (Finite 800) (Finite 600) (Finite 0))) = Finite 0 \<and>
   width (constructor (workspace (Finite 800) (Finite 600) (Finite 0))) = Finite 800 \<and>
   height (constructor (workspace (Finite 800) (Finite 600) (Finite 0))) = Finite 600 \<and>
   resolvable [mkNode ''A'' 2 (- 1), mkNode ''B'' (1/2) (1/4)] (mkEdge ''A'' ''B'') \<and>
   finiteNode (mkNode ''A'' 2 (- 1)) \<and> finiteNode (mkNode ''B'' (1/2) (1/4)) \<and>
   optimizeLayout driftLibrary (constructor (workspace (Finite 800) (Finite 600) (Finite 0)))
     \<lparr> nodes = [mkNode ''A'' 2 (- 1), mkNode ''B'' (1/2) (1/4)], edges = [mkEdge ''A'' ''B''] \<rparr>
     = Some (Inr [mkNode ''A'' 1 0, mkNode ''B'' (1/2) (1/4)]) \<and>
   resolvable squareNodes (mkEdge ''A'' ''B'') \<and>
   optimizeLayout driftLibrary (constructor (workspace (Finite 800) (Finite 600) (Finite 0)))
     \<lparr> nodes = squareNodes, edges = [mkEdge ''A'' ''B''] \<rparr> = Some (Inr squareNodes)"
proof -
  let ?o = "constructor (workspace (Finite 800) (Finite 600) (Finite 0))"
  let ?g = "\<lparr> nodes = squareNodes, edges = [mkEdge ''A'' ''B''] \<rparr>"
  let ?k = "\<lparr> nodes = [mkNode ''A'' 2 (- 1), mkNode ''B'' (1/2) (1/4)], edges = [mkEdge ''A'' ''B''] \<rparr>"
  have i: "iterations ?o = Finite 0" and w: "width ?o = Finite 800" and h: "height ?o = Finite 600"
    by simp_all
  have pw: "(0::real) < 800" and ph: "(0::real) < 600"
    by simp_all
  have res: "\<forall>e \<in> set (edges ?g). resolvable (nodes ?g) e"
    by (simp add: resolvable_def squareNodes_def mkNode_def mkEdge_def)
  have fin: "\<forall>n \<in> set (nodes ?g). finiteNode n"
    by (simp add: squareNodes_def finiteNode_def mkNode_def)
  have unit: "\<forall>n \<in> set (nodes ?g). inUnit (node_x n) \<and> inUnit (node_y n)"
    by (simp add: squareNodes_def mkNode_def inUnit_def js_le_def)
  have resk: "\<forall>e \<in> set (edges ?k). resolvable (nodes ?k) e"
    by (simp add: resolvable_def mkNode_def mkEdge_def)
  have fink: "\<forall>n \<in> set (nodes ?k). finiteNode n"
    by (simp add: finiteNode_def mkNode_def)
  note outside = optimizeLayout_zero_iterations
    [OF constructionKeepsNodes_driftLibrary i w pw h ph resk fink]
  from outside [THEN conjunct2, THEN conjunct1]
  have clampedk: "optimizeLayout driftLibrary ?o ?k = Some (Inr [mkNode ''A'' 1 0, mkNode ''B'' (1/2) (1/4)])"
    by (simp add: mkNode_def)
  note inside = optimizeLayout_zero_iterations
    [OF constructionKeepsNodes_driftLibrary i w pw h ph res fin]
  from inside [THEN conjunct2, THEN conjunct2, THEN mp, OF unit]
  have same: "optimizeLayout driftLibrary ?o ?g = Some (Inr squareNodes)"
    by (simp only: GraphData.simps)
  have "resolvable squareNodes (mkEdge ''A'' ''B'')"
    using res by simp
  moreover have "resolvable [mkNode ''A'' 2 (- 1), mkNode ''B'' (1/2) (1/4)] (mkEdge ''A'' ''B'')"
    using resk by simp
  moreover have "finiteNode (mkNode ''A'' 2 (- 1))" "finiteNode (mkNode ''B'' (1/2) (1/4))"
    using fink by simp_all
  ultimately show ?thesis
    using constructionKeepsNodes_driftLibrary i w h clampedk same by blast
qed

section \<open>The input graph is not mutated\<close>

lemma allocAll_eq: "allocAll obs h = ([length h ..< length h + length obs], h @ obs)"
proof (induction obs arbitrary: h)
  case Nil
  show ?case by simp
next
  case (Cons ob obs)
  have "[length h ..< length h + length (ob # obs)] = length h # [Suc (length h) ..< Suc (length h) + length obs]"
    by (simp add: upt_rec)
  then show ?case
    by (simp add: alloc_def Cons.IH)
qed

lemma mapNodes_Some:
  assumes "mapNodes f h r = Some (a, h1)"
  shows "\<exists>ns. readNodes h r = Some ns \<and> a = length h + length ns \<and>
              h1 = h @ map (\<lambda>node. NodeObj (f node)) ns @ [ArrayObj [length h ..< length h + length ns]]"
  using assms by (auto simp: mapNodes_def allocAll_eq alloc_def split: option.splits)

lemma mapEdges_Some:
  assumes "mapEdges f h r = Some (a, h1)"
  shows "\<exists>es. readEdges h r = Some es \<and> a = length h + length es \<and>
              h1 = h @ map (\<lambda>edge. EdgeObj (f edge)) es @ [ArrayObj [length h ..< length h + length es]]"
  using assms by (auto simp: mapEdges_def allocAll_eq alloc_def split: option.splits)

lemma preserved_refl: "preserved b h h"
  by (simp add: preserved_def)

lemma preserved_append: "b \<le> length h \<Longrightarrow> preserved b h (h @ cells)"
  by (simp add: preserved_def)

lemma preserved_trans: "preserved b h h1 \<Longrightarrow> preserved b h1 h2 \<Longrightarrow> preserved b h h2"
  by (simp add: preserved_def)

lemma preserved_length: "preserved b h h' \<Longrightarrow> b \<le> length h \<Longrightarrow> b \<le> length h'"
  by (simp add: preserved_def)

lemma aboveRef_new_array:
  "b \<le> length h \<Longrightarrow>
     aboveRef b (h @ cells @ [ArrayObj [length h ..< length h + length cells]]) (length h + length cells)"
  by (simp add: aboveRef_def readCell_def nth_append list_all_iff)

lemma aboveRef_append: "r < length h \<Longrightarrow> aboveRef b h r \<Longrightarrow> aboveRef b (h @ cells) r"
  by (simp add: aboveRef_def readCell_def nth_append)

lemma mapNodes_fresh:
  assumes "mapNodes f h r = Some (a, h1)" and "b \<le> length h"
  shows "preserved b h h1 \<and> aboveRef (length h) h1 a \<and> a < length h1 \<and> length h \<le> a"
proof -
  from mapNodes_Some [OF assms(1)] obtain ns where a: "a = length h + length ns"
    and h1: "h1 = h @ map (\<lambda>node. NodeObj (f node)) ns @ [ArrayObj [length h ..< length h + length ns]]"
    by blast
  have "aboveRef (length h) h1 a"
    unfolding a h1 using aboveRef_new_array [of "length h" h "map (\<lambda>node. NodeObj (f node)) ns"]
    by simp
  with assms(2) show ?thesis
    by (simp add: a h1 preserved_append)
qed

lemma mapEdges_fresh:
  assumes "mapEdges f h r = Some (a, h1)" and "b \<le> length h"
  shows "preserved b h h1 \<and> aboveRef (length h) h1 a \<and> a < length h1 \<and> length h \<le> a"
proof -
  from mapEdges_Some [OF assms(1)] obtain es where a: "a = length h + length es"
    and h1: "h1 = h @ map (\<lambda>edge. EdgeObj (f edge)) es @ [ArrayObj [length h ..< length h + length es]]"
    by blast
  have "aboveRef (length h) h1 a"
    unfolding a h1 using aboveRef_new_array [of "length h" h "map (\<lambda>edge. EdgeObj (f edge)) es"]
    by simp
  with assms(2) show ?thesis
    by (simp add: a h1 preserved_append)
qed

lemma aboveRef_mono: "b \<le> c \<Longrightarrow> aboveRef c h r \<Longrightarrow> aboveRef b h r"
  by (auto simp: aboveRef_def list_all_iff split: option.splits obj.splits)

lemma mapEdges_keeps_aboveRef:
  assumes "mapEdges f h r = Some (a, h1)" and "x < length h" and "aboveRef b h x"
  shows "aboveRef b h1 x"
proof -
  from mapEdges_Some [OF assms(1)] obtain cells where "h1 = h @ cells" by blast
  with assms(2,3) show ?thesis by (simp add: aboveRef_append)
qed

lemma ticks_preserved:
  assumes "confined lib" and "b \<le> length h" and "h_above lib s b"
    and "((\<lambda>(s, h). h_tick lib s h) ^^ k) (s, h) = (s', h')"
  shows "preserved b h h' \<and> h_above lib s' b"
  using assms(4)
proof (induction k arbitrary: s' h')
  case 0
  with assms(3) show ?case by (simp add: preserved_refl)
next
  case (Suc k)
  obtain s1 h1 where mid: "((\<lambda>(s, h). h_tick lib s h) ^^ k) (s, h) = (s1, h1)"
    by (cases "((\<lambda>(s, h). h_tick lib s h) ^^ k) (s, h)")
  from Suc.IH [OF mid] have p: "preserved b h h1" and a: "h_above lib s1 b" by simp_all
  from p assms(2) have len: "b \<le> length h1" by (rule preserved_length)
  from Suc.prems mid have step: "h_tick lib s1 h1 = (s', h')" by simp
  from assms(1) len a have "preserved b h1 (snd (h_tick lib s1 h1)) \<and> h_above lib (fst (h_tick lib s1 h1)) b"
    unfolding confined_def by blast
  with step p show ?case by (auto intro: preserved_trans)
qed

lemma optimizeLayoutOnHeap_preserved:
  assumes "confined lib" and "optimizeLayoutOnHeap lib options graphData h = Some (res, h')"
  shows "preserved (length h) h h' \<and>
         (\<forall>result. res = Returned result \<longrightarrow> length h \<le> result \<and> result < length h' \<and>
                    aboveRef (length h) h' result)"
proof (cases "readCell h graphData")
  case None
  with assms(2) show ?thesis by (simp add: optimizeLayoutOnHeap_def preserved_refl)
next
  case (Some cell)
  show ?thesis
  proof (cases cell)
    case (GraphObj nodesRef edgesRef)
    note g = Some [unfolded GraphObj]
    let ?b = "length h"
    show ?thesis
    proof (cases "mapNodes (scaleUp options) h nodesRef")
      case None
      with assms(2) g show ?thesis by (simp add: optimizeLayoutOnHeap_def preserved_refl)
    next
      case (Some p1)
      obtain ns h1 where p1: "p1 = (ns, h1)" by (cases p1)
      note m1 = Some [unfolded p1]
      from mapNodes_fresh [OF m1, of ?b]
      have pr1: "preserved ?b h h1" and ab1: "aboveRef ?b h1 ns" and in1: "ns < length h1"
        by simp_all
      from pr1 have b1: "?b \<le> length h1" by (simp add: preserved_def)
      show ?thesis
      proof (cases "mapEdges copyEdge h1 edgesRef")
        case None
        with assms(2) g m1 pr1 show ?thesis by (simp add: optimizeLayoutOnHeap_def)
      next
        case (Some p2)
        obtain links h2 where p2: "p2 = (links, h2)" by (cases p2)
        note m2 = Some [unfolded p2]
        from mapEdges_fresh [OF m2 b1]
        have pr2: "preserved ?b h1 h2" and ab2': "aboveRef (length h1) h2 links"
          by simp_all
        from ab2' b1 have ab2: "aboveRef ?b h2 links" by (rule aboveRef_mono [rotated])
        from mapEdges_keeps_aboveRef [OF m2 in1 ab1] have ab1': "aboveRef ?b h2 ns" .
        from pr1 pr2 have pr12: "preserved ?b h h2" by (rule preserved_trans)
        then have b2: "?b \<le> length h2" by (simp add: preserved_def)
        obtain r3 h3 where c: "h_forceSimulation lib options ns links h2 = (r3, h3)"
          by (cases "h_forceSimulation lib options ns links h2")
        from assms(1) b2 ab1' ab2
        have "preserved ?b h2 (snd (h_forceSimulation lib options ns links h2)) \<and>
              (\<forall>s. fst (h_forceSimulation lib options ns links h2) = Inr s \<longrightarrow> h_above lib s ?b)"
          unfolding confined_def by blast
        with c have pr3: "preserved ?b h2 h3" and ab3: "\<forall>s. r3 = Inr s \<longrightarrow> h_above lib s ?b"
          by simp_all
        from pr12 pr3 have pr123: "preserved ?b h h3" by (rule preserved_trans)
        then have b3: "?b \<le> length h3" by (simp add: preserved_def)
        show ?thesis
        proof (cases r3)
          case (Inl e)
          with assms(2) g m1 m2 c pr123 show ?thesis by (auto simp: optimizeLayoutOnHeap_def)
        next
          case (Inr s)
          with ab3 have above: "h_above lib s ?b" by simp
          show ?thesis
          proof (cases "tickLoop (\<lambda>(s, h). h_tick lib s h) (iterations options) (Finite 0) (s, h3)")
            case None
            with assms(2) g m1 m2 c Inr show ?thesis by (simp add: optimizeLayoutOnHeap_def)
          next
            case (Some p4)
            obtain s' h4 where p4: "p4 = (s', h4)" by (cases p4)
            note loop = Some [unfolded p4]
            from tickLoop_funpow [OF loop] obtain k
              where "((\<lambda>(s, h). h_tick lib s h) ^^ k) (s, h3) = (s', h4)" by auto
            from ticks_preserved [OF assms(1) b3 above this] have pr4: "preserved ?b h3 h4"
              by simp
            with pr123 have pr1234: "preserved ?b h h4" by (rule preserved_trans)
            then have b4: "?b \<le> length h4" by (simp add: preserved_def)
            show ?thesis
            proof (cases "mapNodes (scaleDown options) h4 ns")
              case None
              with assms(2) g m1 m2 c Inr loop pr1234 show ?thesis
                by (simp add: optimizeLayoutOnHeap_def)
            next
              case (Some p5)
              obtain result h5 where p5: "p5 = (result, h5)" by (cases p5)
              note m5 = Some [unfolded p5]
              from mapNodes_fresh [OF m5 b4]
              have pr5: "preserved ?b h4 h5" and ab5: "aboveRef (length h4) h5 result"
                and in5: "result < length h5" and le5: "length h4 \<le> result"
                by simp_all
              from pr1234 pr5 have "preserved ?b h h5" by (rule preserved_trans)
              moreover from ab5 b4 have "aboveRef ?b h5 result" by (rule aboveRef_mono [rotated])
              moreover from le5 b4 have "?b \<le> result" by simp
              ultimately show ?thesis
                using assms(2) g m1 m2 c Inr loop m5 in5 by (auto simp: optimizeLayoutOnHeap_def)
            qed
          qed
        qed
      qed
    qed
  qed (use assms(2) Some in \<open>simp_all add: optimizeLayoutOnHeap_def preserved_refl\<close>)
qed

lemma readCell_append: "a < length h \<Longrightarrow> readCell (h @ cells) a = readCell h a"
  by (simp add: readCell_def nth_append)

lemma readNode_append: "readNode h a = Some node \<Longrightarrow> readNode (h @ cells) a = Some node"
  by (auto simp: readNode_def readCell_def nth_append split: if_splits)

lemma readEdge_append: "readEdge h a = Some edge \<Longrightarrow> readEdge (h @ cells) a = Some edge"
  by (auto simp: readEdge_def readCell_def nth_append split: if_splits)

lemma those_map_stable:
  assumes "those (map f rs) = Some xs" and "\<And>r x. f r = Some x \<Longrightarrow> g r = Some x"
  shows "those (map g rs) = Some xs"
  using assms(1)
proof (induction rs arbitrary: xs)
  case Nil
  then show ?case by simp
next
  case (Cons r rs)
  from Cons.prems obtain x ys where "f r = Some x" "those (map f rs) = Some ys" "xs = x # ys"
    by (auto split: option.splits)
  with Cons.IH [of ys] assms(2) [of r x] show ?case by simp
qed

lemma readNodes_append: "readNodes h r = Some ns \<Longrightarrow> readNodes (h @ cells) r = Some ns"
proof -
  assume a: "readNodes h r = Some ns"
  then obtain rs where c: "readCell h r = Some (ArrayObj rs)" and t: "those (map (readNode h) rs) = Some ns"
    by (auto simp: readNodes_def split: option.splits obj.splits)
  from c have "r < length h" by (simp add: readCell_def split: if_splits)
  with c have "readCell (h @ cells) r = Some (ArrayObj rs)" by (simp add: readCell_append)
  moreover from t have "those (map (readNode (h @ cells)) rs) = Some ns"
    by (rule those_map_stable) (rule readNode_append)
  ultimately show ?thesis by (simp add: readNodes_def)
qed

lemma readEdges_append: "readEdges h r = Some es \<Longrightarrow> readEdges (h @ cells) r = Some es"
proof -
  assume a: "readEdges h r = Some es"
  then obtain rs where c: "readCell h r = Some (ArrayObj rs)" and t: "those (map (readEdge h) rs) = Some es"
    by (auto simp: readEdges_def split: option.splits obj.splits)
  from c have "r < length h" by (simp add: readCell_def split: if_splits)
  with c have "readCell (h @ cells) r = Some (ArrayObj rs)" by (simp add: readCell_append)
  moreover from t have "those (map (readEdge (h @ cells)) rs) = Some es"
    by (rule those_map_stable) (rule readEdge_append)
  ultimately show ?thesis by (simp add: readEdges_def)
qed

lemma preserved_extends:
  assumes "preserved (length h) h h'"
  shows "h' = h @ drop (length h) h'"
proof -
  from assms have "take (length h) h' = h" by (simp add: preserved_def)
  then have "take (length h) h' @ drop (length h) h' = h @ drop (length h) h'" by simp
  then show ?thesis by simp
qed

text \<open>
  C9. Given that the library writes only to cells it can reach through the references it is
  handed, after every call of \<open>optimizeLayout\<close> that ends (returning or throwing) every
  cell of the store that existed before the call is unchanged: the graph object, its two
  arrays, and every vertex and edge in them read as before. A returned array, and every
  element of it, is a cell allocated during the call.
\<close>

theorem optimizeLayout_does_not_mutate:
  assumes "confined lib" and "optimizeLayoutOnHeap lib options graphData h = Some (res, h')"
  shows "take (length h) h' = h \<and>
         (\<forall>a < length h. readCell h' a = readCell h a) \<and>
         (\<forall>nodesRef edgesRef ns es.
            readCell h graphData = Some (GraphObj nodesRef edgesRef) \<and>
            readNodes h nodesRef = Some ns \<and> readEdges h edgesRef = Some es \<longrightarrow>
              readCell h' graphData = Some (GraphObj nodesRef edgesRef) \<and>
              readNodes h' nodesRef = Some ns \<and> readEdges h' edgesRef = Some es) \<and>
         (\<forall>result. res = Returned result \<longrightarrow>
            length h \<le> result \<and> result < length h' \<and> aboveRef (length h) h' result)"
proof -
  from optimizeLayoutOnHeap_preserved [OF assms]
  have pr: "preserved (length h) h h'"
    and new: "\<forall>result. res = Returned result \<longrightarrow>
                length h \<le> result \<and> result < length h' \<and> aboveRef (length h) h' result"
    by blast+
  from pr have tk: "take (length h) h' = h" by (simp add: preserved_def)
  from preserved_extends [OF pr] obtain cells where ext: "h' = h @ cells" ..
  have cell: "readCell h' a = readCell h a" if "a < length h" for a
    using that by (simp add: ext readCell_append)
  have graph: "readCell h' graphData = Some (GraphObj nodesRef edgesRef)"
    if "readCell h graphData = Some (GraphObj nodesRef edgesRef)" for nodesRef edgesRef
  proof -
    from that have "graphData < length h" by (simp add: readCell_def split: if_splits)
    with that show ?thesis by (simp add: cell)
  qed
  from tk cell graph new show ?thesis
    by (auto simp: ext intro: readNodes_append readEdges_append)
qed

lemma tickLoop_from_zero: "tickLoop tk (Finite r) (Finite 0) s = Some ((tk ^^ nat \<lceil>r\<rceil>) s)"
  using tickLoop_finite [of tk r 0 s] by simp

lemma writeNodes_length [simp]: "length (writeNodes rs ns h) = length h"
  by (induction rs ns h rule: writeNodes.induct) simp_all

lemma writeNodes_other: "a \<notin> set rs \<Longrightarrow> writeNodes rs ns h ! a = h ! a"
  by (induction rs ns h rule: writeNodes.induct) auto

lemma writeNodes_preserved: "list_all (\<lambda>r. b \<le> r) rs \<Longrightarrow> preserved b h (writeNodes rs ns h)"
proof (induction rs ns h rule: writeNodes.induct)
  case (1 r rs node ns h)
  let ?h1 = "if r < length h then h[r := NodeObj node] else h"
  from "1.prems" have r: "b \<le> r" and rs: "list_all (\<lambda>r. b \<le> r) rs" by simp_all
  from r have "preserved b h ?h1" by (simp add: preserved_def)
  moreover from rs have "preserved b ?h1 (writeNodes rs ns ?h1)" by (rule "1.IH")
  ultimately have "preserved b h (writeNodes rs ns ?h1)" by (rule preserved_trans)
  then show ?case by simp
qed (simp_all add: preserved_refl)

lemma writeNodes_read:
  assumes "distinct rs" and "\<forall>r \<in> set rs. r < length h" and "length ns = length rs"
  shows "map (readNode (writeNodes rs ns h)) rs = map Some ns"
  using assms
proof (induction rs ns h rule: writeNodes.induct)
  case (1 r rs node ns h)
  let ?h1 = "if r < length h then h[r := NodeObj node] else h"
  from "1.prems" have r: "r < length h" "r \<notin> set rs" by simp_all
  from "1.prems" have "distinct rs" "\<forall>x \<in> set rs. x < length ?h1" "length ns = length rs"
    by simp_all
  then have rest: "map (readNode (writeNodes rs ns ?h1)) rs = map Some ns"
    by (rule "1.IH")
  have "readNode (writeNodes rs ns ?h1) r = Some node"
    using r by (simp add: readNode_def readCell_def writeNodes_other)
  with rest show ?case by simp
qed simp_all

lemma those_map_Some: "those (map Some xs) = Some xs"
  by (induction xs) simp_all

lemma confined_onHeap: "confined (onHeap lib)"
proof -
  have el: "list_all (\<lambda>r. b \<le> r) (elementsOf h nodesRef)" if "aboveRef b h nodesRef" for b h nodesRef
    using that by (auto simp: aboveRef_def elementsOf_def split: option.splits obj.splits)
  show ?thesis
    unfolding confined_def
    by (auto simp: onHeap_def preserved_refl writeNodes_preserved el split: option.splits sum.splits)
qed

theorem optimizeLayout_does_not_mutate_witness:
  "confined (onHeap driftLibrary) \<and>
   optimizeLayoutOnHeap (onHeap driftLibrary) (constructor (workspace (Finite 2) (Finite 2) (Finite 1)))
     5 diagonalHeap =
     Some (Returned 13,
           diagonalHeap @
             [NodeObj (mkNode ''A'' 1 0), NodeObj (mkNode ''B'' 3 2), ArrayObj [6, 7],
              EdgeObj (mkEdge ''A'' ''B''), ArrayObj [9],
              NodeObj (mkNode ''A'' (1/2) 0), NodeObj (mkNode ''B'' 1 1), ArrayObj [11, 12]]) \<and>
   readNodes diagonalHeap 2 = Some [mkNode ''A'' 0 0, mkNode ''B'' 1 1] \<and>
   readEdges diagonalHeap 4 = Some [mkEdge ''A'' ''B''] \<and>
   readNodes (diagonalHeap @
             [NodeObj (mkNode ''A'' 1 0), NodeObj (mkNode ''B'' 3 2), ArrayObj [6, 7],
              EdgeObj (mkEdge ''A'' ''B''), ArrayObj [9],
              NodeObj (mkNode ''A'' (1/2) 0), NodeObj (mkNode ''B'' 1 1), ArrayObj [11, 12]]) 2
     = Some [mkNode ''A'' 0 0, mkNode ''B'' 1 1] \<and>
   readEdges (diagonalHeap @
             [NodeObj (mkNode ''A'' 1 0), NodeObj (mkNode ''B'' 3 2), ArrayObj [6, 7],
              EdgeObj (mkEdge ''A'' ''B''), ArrayObj [9],
              NodeObj (mkNode ''A'' (1/2) 0), NodeObj (mkNode ''B'' 1 1), ArrayObj [11, 12]]) 4
     = Some [mkEdge ''A'' ''B'']"
proof -
  let ?o = "constructor (workspace (Finite 2) (Finite 2) (Finite 1))"
  let ?h' = "diagonalHeap @
             [NodeObj (mkNode ''A'' 1 0), NodeObj (mkNode ''B'' 3 2), ArrayObj [6, 7],
              EdgeObj (mkEdge ''A'' ''B''), ArrayObj [9],
              NodeObj (mkNode ''A'' (1/2) 0), NodeObj (mkNode ''B'' 1 1), ArrayObj [11, 12]]"
  have run: "optimizeLayoutOnHeap (onHeap driftLibrary) ?o 5 diagonalHeap = Some (Returned 13, ?h')"
    by (simp add: optimizeLayoutOnHeap_def diagonalHeap_def readCell_def mapNodes_def mapEdges_def
        readNodes_def readEdges_def readNode_def readEdge_def alloc_def onHeap_def
        elementsOf_def tickLoop_from_zero scaleUp_def scaleDown_def driftLibrary_construct
        resolvable_def copyEdge_def mkNode_def mkEdge_def clamp01_Finite)
  have g: "readCell diagonalHeap 5 = Some (GraphObj 2 4)"
    and ns: "readNodes diagonalHeap 2 = Some [mkNode ''A'' 0 0, mkNode ''B'' 1 1]"
    and es: "readEdges diagonalHeap 4 = Some [mkEdge ''A'' ''B'']"
    by (simp_all add: diagonalHeap_def readCell_def readNodes_def readEdges_def readNode_def readEdge_def)
  from optimizeLayout_does_not_mutate [OF confined_onHeap run] g ns es
  have "readNodes ?h' 2 = Some [mkNode ''A'' 0 0, mkNode ''B'' 1 1] \<and>
        readEdges ?h' 4 = Some [mkEdge ''A'' ''B'']"
    by blast
  with confined_onHeap [of driftLibrary] run ns es show ?thesis by blast
qed

subsection \<open>The store model computes what the value model computes\<close>

text \<open>
  With a library of the value model acting on the store, \<open>optimizeLayoutOnHeap\<close> run on a
  store that holds a graph at the given reference returns, throws or does not end exactly
  as \<open>optimizeLayout\<close> does on that graph, and the array it returns holds the vertices that
  \<open>optimizeLayout\<close> returns.
\<close>

lemma read_new_nodes:
  "map (readNode (h @ map (\<lambda>x. NodeObj (f x)) xs @ cells)) [length h ..< length h + length xs] =
     map Some (map f xs)"
  by (rule nth_equalityI) (simp_all add: readNode_def readCell_def nth_append)

lemma read_new_edges:
  "map (readEdge (h @ map (\<lambda>x. EdgeObj (f x)) xs @ cells)) [length h ..< length h + length xs] =
     map Some (map f xs)"
  by (rule nth_equalityI) (simp_all add: readEdge_def readCell_def nth_append)

lemma mapNodes_result:
  assumes "readNodes h a = Some xs"
  shows "\<exists>h'. mapNodes f h a = Some (length h + length xs, h') \<and>
              length h' = length h + length xs + 1 \<and>
              (\<exists>cells. h' = h @ cells) \<and>
              readCell h' (length h + length xs) = Some (ArrayObj [length h ..< length h + length xs]) \<and>
              readNodes h' (length h + length xs) = Some (map f xs)"
proof -
  let ?h' = "h @ map (\<lambda>x. NodeObj (f x)) xs @ [ArrayObj [length h ..< length h + length xs]]"
  have m: "mapNodes f h a = Some (length h + length xs, ?h')"
    using assms by (simp add: mapNodes_def allocAll_eq alloc_def)
  have c: "readCell ?h' (length h + length xs) = Some (ArrayObj [length h ..< length h + length xs])"
    by (simp add: readCell_def nth_append)
  have "readNodes ?h' (length h + length xs) = Some (map f xs)"
    unfolding readNodes_def c by (simp only: option.case obj.case read_new_nodes those_map_Some)
  with m c show ?thesis by (intro exI [of _ ?h']) auto
qed

lemma mapEdges_result:
  assumes "readEdges h a = Some xs"
  shows "\<exists>h'. mapEdges f h a = Some (length h + length xs, h') \<and>
              length h' = length h + length xs + 1 \<and>
              (\<exists>cells. h' = h @ cells) \<and>
              readEdges h' (length h + length xs) = Some (map f xs)"
proof -
  let ?h' = "h @ map (\<lambda>x. EdgeObj (f x)) xs @ [ArrayObj [length h ..< length h + length xs]]"
  have m: "mapEdges f h a = Some (length h + length xs, ?h')"
    using assms by (simp add: mapEdges_def allocAll_eq alloc_def)
  have c: "readCell ?h' (length h + length xs) = Some (ArrayObj [length h ..< length h + length xs])"
    by (simp add: readCell_def nth_append)
  have "readEdges ?h' (length h + length xs) = Some (map f xs)"
    unfolding readEdges_def c by (simp only: option.case obj.case read_new_edges those_map_Some)
  with m show ?thesis by (intro exI [of _ ?h']) auto
qed

lemma holds_write:
  assumes "holds h a rs xs" and "length ys = length xs"
  shows "holds (writeNodes rs ys h) a rs ys"
proof -
  from assms(1) have c: "readCell h a = Some (ArrayObj rs)" and d: "distinct rs" and a: "a \<notin> set rs"
    and r: "\<forall>r \<in> set rs. r < length h" and l: "length xs = length rs"
    by (simp_all add: holds_def)
  from c a have c': "readCell (writeNodes rs ys h) a = Some (ArrayObj rs)"
    by (simp add: readCell_def writeNodes_other split: if_splits)
  from assms(2) l have "map (readNode (writeNodes rs ys h)) rs = map Some ys"
    by (intro writeNodes_read d r) simp
  then have "readNodes (writeNodes rs ys h) a = Some ys"
    unfolding readNodes_def c' by (simp only: option.case obj.case those_map_Some)
  with c' d a r l assms(2) show ?thesis by (simp add: holds_def)
qed

lemma holds_append: "holds h a rs xs \<Longrightarrow> holds (h @ cells) a rs xs"
  by (auto simp: holds_def readNodes_append readCell_def nth_append split: if_splits)


lemma keepsIdentifiers_construct_length:
  assumes "keepsIdentifiers lib" and "forceSimulation lib options ns links = Inr s"
  shows "length (sim_nodes lib s) = length ns"
proof -
  from assms have "map node_id (sim_nodes lib s) = map node_id ns"
    unfolding keepsIdentifiers_def by blast
  then show ?thesis by (rule map_eq_imp_length_eq)
qed

lemma keepsIdentifiers_tick_length:
  assumes "keepsIdentifiers lib"
  shows "length (sim_nodes lib (tick lib s)) = length (sim_nodes lib s)"
proof -
  from assms have "map node_id (sim_nodes lib (tick lib s)) = map node_id (sim_nodes lib s)"
    unfolding keepsIdentifiers_def by blast
  then show ?thesis by (rule map_eq_imp_length_eq)
qed

lemma onHeap_ticks:
  assumes "keepsIdentifiers lib" and "holds h a rs (sim_nodes lib s)"
  shows "\<exists>h'. ((\<lambda>(st, h). h_tick (onHeap lib) st h) ^^ k) ((s, rs), h) = (((tick lib ^^ k) s, rs), h') \<and>
              holds h' a rs (sim_nodes lib ((tick lib ^^ k) s))"
proof (induction k)
  case 0
  from assms(2) show ?case by simp
next
  case (Suc k)
  then obtain h1 where run: "((\<lambda>(st, h). h_tick (onHeap lib) st h) ^^ k) ((s, rs), h) = (((tick lib ^^ k) s, rs), h1)"
    and inv: "holds h1 a rs (sim_nodes lib ((tick lib ^^ k) s))"
    by blast
  let ?s = "(tick lib ^^ k) s"
  let ?h' = "writeNodes rs (sim_nodes lib (tick lib ?s)) h1"
  have eq: "(tick lib ^^ Suc k) s = tick lib ?s" by simp
  have "holds ?h' a rs (sim_nodes lib ((tick lib ^^ Suc k) s))"
    unfolding eq using inv by (rule holds_write) (rule keepsIdentifiers_tick_length [OF assms(1)])
  moreover have "((\<lambda>(st, h). h_tick (onHeap lib) st h) ^^ Suc k) ((s, rs), h) =
                   (((tick lib ^^ Suc k) s, rs), ?h')"
    unfolding eq funpow.simps o_apply run by (simp add: onHeap_def)
  ultimately show ?case by blast
qed

lemma optimizeLayoutOnHeap_refines:
  assumes keep: "keepsIdentifiers lib"
    and g: "readCell h graphData = Some (GraphObj nodesRef edgesRef)"
    and ns: "readNodes h nodesRef = Some ns" and es: "readEdges h edgesRef = Some es"
  shows "(optimizeLayout lib options \<lparr> nodes = ns, edges = es \<rparr> = None \<longrightarrow>
            optimizeLayoutOnHeap (onHeap lib) options graphData h = None) \<and>
         (\<forall>e. optimizeLayout lib options \<lparr> nodes = ns, edges = es \<rparr> = Some (Inl e) \<longrightarrow>
            (\<exists>h'. optimizeLayoutOnHeap (onHeap lib) options graphData h = Some (Thrown e, h'))) \<and>
         (\<forall>result. optimizeLayout lib options \<lparr> nodes = ns, edges = es \<rparr> = Some (Inr result) \<longrightarrow>
            (\<exists>r h'. optimizeLayoutOnHeap (onHeap lib) options graphData h = Some (Returned r, h') \<and>
                     readNodes h' r = Some result))"
proof -
  let ?G = "\<lparr> nodes = ns, edges = es \<rparr>"
  let ?a = "length h + length ns"
  let ?rs = "[length h ..< length h + length ns]"
  let ?ns1 = "map (scaleUp options) ns"
  let ?links = "map copyEdge es"
  from mapNodes_result [OF ns, of "scaleUp options"] obtain h1 cells1
    where m1: "mapNodes (scaleUp options) h nodesRef = Some (?a, h1)"
      and len1: "length h1 = length h + length ns + 1" and ext1: "h1 = h @ cells1"
      and c1: "readCell h1 ?a = Some (ArrayObj ?rs)" and rn1: "readNodes h1 ?a = Some ?ns1"
    by blast
  from es have "readEdges h1 edgesRef = Some es"
    unfolding ext1 by (rule readEdges_append)
  from mapEdges_result [OF this, of copyEdge] obtain h2 cells2
    where m2: "mapEdges copyEdge h1 edgesRef = Some (length h1 + length es, h2)"
      and ext2: "h2 = h1 @ cells2" and re2: "readEdges h2 (length h1 + length es) = Some ?links"
    by blast
  have "holds h1 ?a ?rs ?ns1"
    using c1 rn1 len1 by (simp add: holds_def)
  then have inv2: "holds h2 ?a ?rs ?ns1"
    unfolding ext2 by (rule holds_append)
  then have rn2: "readNodes h2 ?a = Some ?ns1" and el2: "elementsOf h2 ?a = ?rs"
    by (simp_all add: holds_def elementsOf_def)
  show ?thesis
  proof (cases "forceSimulation lib options ?ns1 ?links")
    case (Inl e)
    then have "optimizeLayout lib options ?G = Some (Inl e)"
      by (simp add: optimizeLayout_def)
    moreover from Inl have "optimizeLayoutOnHeap (onHeap lib) options graphData h = Some (Thrown e, h2)"
      by (simp add: optimizeLayoutOnHeap_def g m1 m2 onHeap_def rn2 re2)
    ultimately show ?thesis by simp
  next
    case (Inr s)
    let ?h3 = "writeNodes ?rs (sim_nodes lib s) h2"
    let ?tk = "\<lambda>(st, h). h_tick (onHeap lib) st h"
    have c: "h_forceSimulation (onHeap lib) options ?a (length h1 + length es) h2 = (Inr (s, ?rs), ?h3)"
      by (simp add: onHeap_def rn2 re2 el2 Inr)
    have inv3: "holds ?h3 ?a ?rs (sim_nodes lib s)"
      using inv2 by (rule holds_write) (simp add: keepsIdentifiers_construct_length [OF keep Inr])
    have val: "optimizeLayout lib options ?G =
                   map_option (\<lambda>k. Inr (map (scaleDown options) (sim_nodes lib ((tick lib ^^ k) s))))
                     (rounds (iterations options))"
      using optimizeLayout_rounds [of lib options ?G s] Inr by simp
    have loop: "tickLoop ?tk (iterations options) (Finite 0) ((s, ?rs), ?h3) =
                  map_option (\<lambda>k. (?tk ^^ k) ((s, ?rs), ?h3)) (rounds (iterations options))"
      by (rule tickLoop_rounds)
    show ?thesis
    proof (cases "rounds (iterations options)")
      case None
      with val loop show ?thesis
        by (simp add: optimizeLayoutOnHeap_def g m1 m2 c)
    next
      case (Some k)
      let ?s' = "(tick lib ^^ k) s"
      from onHeap_ticks [OF keep inv3, of k] obtain h4
        where run: "(?tk ^^ k) ((s, ?rs), ?h3) = ((?s', ?rs), h4)"
          and inv4: "holds h4 ?a ?rs (sim_nodes lib ?s')"
        by blast
      from inv4 have "readNodes h4 ?a = Some (sim_nodes lib ?s')"
        by (simp add: holds_def)
      from mapNodes_result [OF this, of "scaleDown options"] obtain h5
        where m5: "mapNodes (scaleDown options) h4 ?a = Some (length h4 + length (sim_nodes lib ?s'), h5)"
          and rn5: "readNodes h5 (length h4 + length (sim_nodes lib ?s')) =
                      Some (map (scaleDown options) (sim_nodes lib ?s'))"
        by blast
      have "optimizeLayoutOnHeap (onHeap lib) options graphData h =
              Some (Returned (length h4 + length (sim_nodes lib ?s')), h5)"
        by (simp add: optimizeLayoutOnHeap_def g m1 m2 c loop Some run m5)
      with val Some rn5 show ?thesis by simp
    qed
  qed
qed

end
